theory Spec2Isabelle
  imports Complex_Main "HOL-Library.Multiset"
begin

section \<open>Values\<close>

text \<open>
  Python floats.  Only three things about a float are ever looked at by the code
  modelled here: whether it is the not-a-number value, whether it is zero
  (truthiness), and whether it equals another number.  A finite float is therefore
  represented by the rational number it denotes.
\<close>

datatype pyfloat = FNaN | FInf bool | FFin rat

text \<open>
  JSON documents as \<^verbatim>\<open>json.load\<close> and the document store hand them to the code: a
  dictionary has string keys, keeps its insertion order, and holds each key once, so
  it is an association list.
\<close>

datatype json =
    JNull
  | JBool bool
  | JInt int
  | JFloat pyfloat
  | JStr string
  | JList "json list"
  | JDict "(string \<times> json) list"

type_synonym jdict = "(string \<times> json) list"

text \<open>Exceptions: the three classes the code is seen to meet, and any other by its name.\<close>

datatype exn = TypeError | ValueError | OSError | Raised string

text \<open>\<^verbatim>\<open>d.get(k)\<close> and \<^verbatim>\<open>d.get(k, default)\<close> on a string-keyed dictionary.\<close>

definition get_default :: "jdict \<Rightarrow> string \<Rightarrow> json \<Rightarrow> json" where
  "get_default d k dflt = (case map_of d k of None \<Rightarrow> dflt | Some v \<Rightarrow> v)"

definition get :: "jdict \<Rightarrow> string \<Rightarrow> json" where
  "get d k = get_default d k JNull"

text \<open>\<^verbatim>\<open>d[k] = v\<close> on a string-keyed dictionary: an existing key keeps its place.\<close>

fun str_dict_set :: "jdict \<Rightarrow> string \<Rightarrow> json \<Rightarrow> jdict" where
  "str_dict_set [] k v = [(k, v)]"
| "str_dict_set ((k', v') # d) k v =
     (if k' = k then (k', v) # d else (k', v') # str_dict_set d k v)"

text \<open>The tests \<^verbatim>\<open>isinstance(v, list)\<close>, \<^verbatim>\<open>isinstance(v, dict)\<close> and their like.\<close>

fun is_list :: "json \<Rightarrow> bool" where
  "is_list (JList xs) = True"
| "is_list _ = False"

fun is_dict :: "json \<Rightarrow> bool" where
  "is_dict (JDict d) = True"
| "is_dict _ = False"

fun is_str :: "json \<Rightarrow> bool" where
  "is_str (JStr s) = True"
| "is_str _ = False"

fun is_bool :: "json \<Rightarrow> bool" where
  "is_bool (JBool b) = True"
| "is_bool _ = False"

text \<open>Truth value of a JSON value, and Python's \<^verbatim>\<open>a or b\<close>.\<close>

fun truthy :: "json \<Rightarrow> bool" where
  "truthy JNull = False"
| "truthy (JBool b) = b"
| "truthy (JInt i) = (i \<noteq> 0)"
| "truthy (JFloat f) = (f \<noteq> FFin 0)"
| "truthy (JStr s) = (s \<noteq> [])"
| "truthy (JList xs) = (xs \<noteq> [])"
| "truthy (JDict d) = (d \<noteq> [])"

definition py_or :: "json \<Rightarrow> json \<Rightarrow> json" where
  "py_or a b = (if truthy a then a else b)"

text \<open>
  Python's \<^verbatim>\<open>==\<close> on JSON values.  Booleans, integers and floats compare by numeric
  value (\<^verbatim>\<open>True == 1\<close>, \<^verbatim>\<open>1 == 1.0\<close>), not-a-number equals nothing, lists compare
  element by element and dictionaries key by key.  (CPython first compares the elements
  of two containers by identity; values carry no identity here, so the model is that of
  two documents loaded separately.)
\<close>

fun number :: "json \<Rightarrow> pyfloat option" where
  "number (JBool b) = Some (FFin (if b then 1 else 0))"
| "number (JInt i) = Some (FFin (of_int i))"
| "number (JFloat f) = Some f"
| "number _ = None"

fun py_eq :: "json \<Rightarrow> json \<Rightarrow> bool" where
  "py_eq JNull b = (b = JNull)"
| "py_eq (JStr s) b = (b = JStr s)"
| "py_eq (JList xs) b = (case b of JList ys \<Rightarrow> list_all2 py_eq xs ys | _ \<Rightarrow> False)"
| "py_eq (JDict d) b =
     (case b of
        JDict e \<Rightarrow>
          length d = length e \<and>
          list_all (\<lambda>(k, v). case map_of e k of None \<Rightarrow> False | Some w \<Rightarrow> py_eq v w) d
      | _ \<Rightarrow> False)"
| "py_eq a b =
     (case (number a, number b) of
        (Some x, Some y) \<Rightarrow> x \<noteq> FNaN \<and> x = y
      | _ \<Rightarrow> False)"


section \<open>Schema diff service\<close>

text \<open>
  The dictionary \<^verbatim>\<open>fields\<close> that \<^verbatim>\<open>_extract_fields_from_schema\<close> builds is keyed by
  whatever the name expression evaluates to, so its keys are JSON values.  A list or a
  dictionary is unhashable and makes the subscript assignment raise \<^verbatim>\<open>TypeError\<close>; two
  keys are the same key when Python's \<^verbatim>\<open>==\<close> says so.
\<close>

type_synonym fields = "(json \<times> jdict) list"

fun hashable :: "json \<Rightarrow> bool" where
  "hashable (JList xs) = False"
| "hashable (JDict d) = False"
| "hashable _ = True"

fun key_in :: "json \<Rightarrow> fields \<Rightarrow> bool" where
  "key_in k [] = False"
| "key_in k ((k', f) # fs) = (py_eq k k' \<or> key_in k fs)"

fun lookup :: "fields \<Rightarrow> json \<Rightarrow> jdict option" where
  "lookup [] k = None"
| "lookup ((k', f) # fs) k = (if py_eq k k' then Some f else lookup fs k)"

fun store :: "fields \<Rightarrow> json \<Rightarrow> jdict \<Rightarrow> fields" where
  "store [] k f = [(k, f)]"
| "store ((k', f') # fs) k f =
     (if py_eq k k' then (k', f) # fs else (k', f') # store fs k f)"

definition dict_set :: "fields \<Rightarrow> json \<Rightarrow> jdict \<Rightarrow> exn + fields" where
  "dict_set fs k f = (if hashable k then Inr (store fs k f) else Inl TypeError)"

text \<open>
  The name under which a field object of a list is filed:
  \<^verbatim>\<open>field.get("name") or field.get("path") or "unknown"\<close> in the first branch,
  \<^verbatim>\<open>field.get("name") or "unknown"\<close> in the \<^verbatim>\<open>raw_schema\<close> fallback.
\<close>

definition field_name :: "bool \<Rightarrow> jdict \<Rightarrow> json" where
  "field_name with_path field =
     (if with_path
      then py_or (py_or (get field ''name'') (get field ''path'')) (JStr ''unknown'')
      else py_or (get field ''name'') (JStr ''unknown''))"

text \<open>
  The loop \<^verbatim>\<open>for field in schema_obj["fields"]: if isinstance(field, dict): ...\<close>; elements
  that are not dictionaries are skipped.
\<close>

fun add_list_fields :: "bool \<Rightarrow> json list \<Rightarrow> fields \<Rightarrow> exn + fields" where
  "add_list_fields with_path [] fs = Inr fs"
| "add_list_fields with_path (JDict field # rest) fs =
     (case dict_set fs (field_name with_path field) field of
        Inl e \<Rightarrow> Inl e
      | Inr fs' \<Rightarrow> add_list_fields with_path rest fs')"
| "add_list_fields with_path (other # rest) fs = add_list_fields with_path rest fs"

text \<open>
  \<^verbatim>\<open>str(field_meta)\<close> in the legacy branch.  The text of a string is the string itself;
  for numbers and containers it is their \<^verbatim>\<open>repr\<close>, which is the interpreter's business
  and is taken as a parameter.
\<close>

fun py_str :: "(json \<Rightarrow> string) \<Rightarrow> json \<Rightarrow> string" where
  "py_str repr (JStr s) = s"
| "py_str repr JNull = ''None''"
| "py_str repr (JBool b) = (if b then ''True'' else ''False'')"
| "py_str repr v = repr v"

text \<open>
  The loop of the legacy branch, \<^verbatim>\<open>for field_name, field_meta in schema_obj["fields"].items()\<close>.
  Its keys are strings, hence hashable.
\<close>

fun add_legacy_fields :: "(json \<Rightarrow> string) \<Rightarrow> jdict \<Rightarrow> fields \<Rightarrow> fields" where
  "add_legacy_fields repr [] fs = fs"
| "add_legacy_fields repr ((name, JDict field_meta) # rest) fs =
     add_legacy_fields repr rest
       (store fs (JStr name) (str_dict_set field_meta ''name'' (JStr name)))"
| "add_legacy_fields repr ((name, field_meta) # rest) fs =
     add_legacy_fields repr rest
       (store fs (JStr name)
          [(''name'', JStr name), (''type'', JStr (py_str repr field_meta))])"

text \<open>
  \<^verbatim>\<open>_extract_fields_from_schema\<close>.  The third branch of the source
  (\<^verbatim>\<open>elif isinstance(schema_obj.get("fields"), list)\<close>) repeats the test of the first, so it
  can never run and has no counterpart here.  The fallback to \<^verbatim>\<open>raw_schema\<close> runs when
  the branches before it have filed no field.
\<close>

definition extract_fields_from_schema :: "(json \<Rightarrow> string) \<Rightarrow> jdict \<Rightarrow> exn + fields" where
  "extract_fields_from_schema repr schema_obj =
     (if schema_obj = [] then Inr []
      else
        case (case get schema_obj ''fields'' of
                JList fl \<Rightarrow> add_list_fields True fl []
              | JDict fd \<Rightarrow> Inr (add_legacy_fields repr fd [])
              | _ \<Rightarrow> Inr [])
        of
          Inl e \<Rightarrow> Inl e
        | Inr fs \<Rightarrow>
            (if fs = []
             then (case get schema_obj ''raw_schema'' of
                     JDict raw \<Rightarrow>
                       (case get raw ''fields'' of
                          JList fl \<Rightarrow> add_list_fields False fl fs
                        | _ \<Rightarrow> Inr fs)
                   | _ \<Rightarrow> Inr fs)
             else Inr fs))"

text \<open>The result of \<^verbatim>\<open>compare_schemas\<close>, one record field per key of the returned dictionary.\<close>

record schema_diff =
  added :: "jdict list"
  removed :: "jdict list"
  changed :: "jdict list"
  added_fields :: "json list"
  removed_fields :: "json list"
  old_count :: nat
  new_count :: nat

definition field_type :: "jdict \<Rightarrow> json" where
  "field_type f = get_default f ''type'' (JStr ''string'')"

definition field_nullable :: "jdict \<Rightarrow> json" where
  "field_nullable f = get_default f ''nullable'' (JBool True)"

definition differs :: "jdict \<Rightarrow> jdict \<Rightarrow> bool" where
  "differs old_field new_field =
     (\<not> py_eq (field_type old_field) (field_type new_field)
      \<or> \<not> py_eq (field_nullable old_field) (field_nullable new_field))"

definition change_entry :: "json \<Rightarrow> jdict \<Rightarrow> jdict \<Rightarrow> jdict" where
  "change_entry name old_field new_field =
     [(''name'', name),
      (''field'', name),
      (''old'', JDict [(''type'', field_type old_field), (''nullable'', field_nullable old_field)]),
      (''new'', JDict [(''type'', field_type new_field), (''nullable'', field_nullable new_field)]),
      (''old_type'', field_type old_field),
      (''new_type'', field_type new_field)]"

text \<open>The loop \<^verbatim>\<open>for name in old_names & new_names\<close>.\<close>

fun changed_entries :: "fields \<Rightarrow> fields \<Rightarrow> jdict list" where
  "changed_entries [] new_fields = []"
| "changed_entries ((name, old_field) # rest) new_fields =
     (case lookup new_fields name of
        None \<Rightarrow> changed_entries rest new_fields
      | Some new_field \<Rightarrow>
          (if differs old_field new_field
           then change_entry name old_field new_field # changed_entries rest new_fields
           else changed_entries rest new_fields))"

definition only_in :: "fields \<Rightarrow> fields \<Rightarrow> jdict list" where
  "only_in fs gs = map snd (filter (\<lambda>(name, f). \<not> key_in name gs) fs)"

definition display_name :: "jdict \<Rightarrow> json" where
  "display_name f = py_or (get f ''name'') (get_default f ''path'' (JStr ''unknown''))"

text \<open>
  \<^verbatim>\<open>compare_schemas\<close>.  The old schema may be \<^verbatim>\<open>None\<close>.  A Python set has no defined
  iteration order, so the order of \<^verbatim>\<open>added\<close>, \<^verbatim>\<open>removed\<close> and \<^verbatim>\<open>changed\<close> is not
  determined by the source; the model lists them in the insertion order of the field
  dictionaries, and the theorems below speak only of which entries the lists hold.
  Where two keys are equal without being the same value (\<^verbatim>\<open>1\<close> and \<^verbatim>\<open>True\<close>), the name
  that an entry of \<^verbatim>\<open>changed\<close> carries may in Python be either; the model takes the old one.
\<close>

definition fields_of :: "(json \<Rightarrow> string) \<Rightarrow> jdict \<Rightarrow> exn + fields" where
  "fields_of repr schema = (if schema = [] then Inr [] else extract_fields_from_schema repr schema)"

definition diff_of :: "fields \<Rightarrow> fields \<Rightarrow> schema_diff" where
  "diff_of old_fields new_fields =
     (let added = only_in new_fields old_fields;
          removed = only_in old_fields new_fields
      in \<lparr> added = added,
           removed = removed,
           changed = changed_entries old_fields new_fields,
           added_fields = map display_name added,
           removed_fields = map display_name removed,
           old_count = length old_fields,
           new_count = length new_fields \<rparr>)"

definition compare_schemas :: "(json \<Rightarrow> string) \<Rightarrow> jdict option \<Rightarrow> jdict \<Rightarrow> exn + schema_diff" where
  "compare_schemas repr old_schema new_schema =
     (case (case old_schema of None \<Rightarrow> Inr [] | Some s \<Rightarrow> fields_of repr s) of
        Inl e \<Rightarrow> Inl e
      | Inr old_fields \<Rightarrow>
          (case fields_of repr new_schema of
             Inl e \<Rightarrow> Inl e
           | Inr new_fields \<Rightarrow> Inr (diff_of old_fields new_fields)))"


subsection \<open>Notions used to state the properties of the diff\<close>

text \<open>
  No key of a field dictionary equals an earlier one: what makes the association list
  a dictionary.
\<close>

fun apart :: "fields \<Rightarrow> bool" where
  "apart [] = True"
| "apart ((k, f) # fs) = (list_all (\<lambda>(k', f'). \<not> py_eq k' k) fs \<and> apart fs)"

text \<open>
  A schema in which the name of every field object is of a hashable type, so that
  filing it raises nothing.  Field names are strings in every schema the system
  produces (the extraction function is annotated \<^verbatim>\<open>Dict[str, Dict[str, Any]]\<close>).
\<close>

definition hashable_names :: "bool \<Rightarrow> json list \<Rightarrow> bool" where
  "hashable_names with_path fl =
     list_all (\<lambda>x. case x of JDict f \<Rightarrow> hashable (field_name with_path f) | _ \<Rightarrow> True) fl"

definition names_ok :: "jdict \<Rightarrow> bool" where
  "names_ok s =
     ((case get s ''fields'' of JList fl \<Rightarrow> hashable_names True fl | _ \<Rightarrow> True) \<and>
      (case get s ''raw_schema'' of
         JDict raw \<Rightarrow> (case get raw ''fields'' of JList fl \<Rightarrow> hashable_names False fl | _ \<Rightarrow> True)
       | _ \<Rightarrow> True))"

text \<open>
  A schema with no field shape in any of the forms the extraction knows: \<^verbatim>\<open>fields\<close> is
  neither a list nor a dictionary, and there is no \<^verbatim>\<open>raw_schema\<close> dictionary with a list
  of fields.
\<close>

definition no_field_shape :: "jdict \<Rightarrow> bool" where
  "no_field_shape s =
     (\<not> is_list (get s ''fields'') \<and> \<not> is_dict (get s ''fields'') \<and>
      (case get s ''raw_schema'' of JDict raw \<Rightarrow> \<not> is_list (get raw ''fields'') | _ \<Rightarrow> True))"

text \<open>The field objects of a list, and the names the first branch files them under.\<close>

fun dict_items :: "json list \<Rightarrow> jdict list" where
  "dict_items [] = []"
| "dict_items (JDict f # rest) = f # dict_items rest"
| "dict_items (other # rest) = dict_items rest"

definition resolved_names :: "json list \<Rightarrow> json list" where
  "resolved_names fl = map (field_name True) (dict_items fl)"

text \<open>A value that Python's \<^verbatim>\<open>==\<close> finds equal to itself: every value but not-a-number.\<close>

definition self_equal :: "json \<Rightarrow> bool" where
  "self_equal v = py_eq v v"

definition plain_field :: "json \<times> jdict \<Rightarrow> bool" where
  "plain_field kf =
     (self_equal (fst kf) \<and> self_equal (field_type (snd kf)) \<and> self_equal (field_nullable (snd kf)))"

text \<open>
  A schema descriptor as the data model has it: a list of field objects, each with a
  non-empty string for a name, a string for a type and a boolean for nullable, and no
  \<^verbatim>\<open>raw_schema\<close> wrapper.
\<close>

definition descriptor_field :: "json \<Rightarrow> bool" where
  "descriptor_field x =
     (case x of
        JDict f \<Rightarrow>
          is_str (get f ''name'') \<and> truthy (get f ''name'') \<and> is_str (get f ''type'')
          \<and> is_bool (get f ''nullable'')
      | _ \<Rightarrow> False)"

definition descriptor :: "jdict \<Rightarrow> bool" where
  "descriptor s =
     (case get s ''fields'' of
        JList fl \<Rightarrow> list_all descriptor_field fl \<and> map_of s ''raw_schema'' = None
      | _ \<Rightarrow> False)"

text \<open>
  The fields that a schema document declares, read off the document in the order in
  which it lists them, each with the name it is to be filed under.  A list of field
  objects declares its dictionaries; a dictionary of fields declares one field per key,
  the metadata with the key as its name, or the key and the text of the metadata as its
  type; and the list under \<^verbatim>\<open>raw_schema\<close> counts when the document declares no field
  itself.
\<close>

definition listed :: "bool \<Rightarrow> json list \<Rightarrow> fields" where
  "listed with_path fl = map (\<lambda>f. (field_name with_path f, f)) (dict_items fl)"

definition legacy_field :: "(json \<Rightarrow> string) \<Rightarrow> string \<times> json \<Rightarrow> json \<times> jdict" where
  "legacy_field repr nm =
     (JStr (fst nm),
      case snd nm of
        JDict field_meta \<Rightarrow> str_dict_set field_meta ''name'' (JStr (fst nm))
      | other \<Rightarrow> [(''name'', JStr (fst nm)), (''type'', JStr (py_str repr other))])"

definition declared :: "(json \<Rightarrow> string) \<Rightarrow> jdict \<Rightarrow> fields" where
  "declared repr s =
     (let direct = (case get s ''fields'' of
                      JList fl \<Rightarrow> listed True fl
                    | JDict fd \<Rightarrow> map (legacy_field repr) fd
                    | _ \<Rightarrow> [])
      in if direct = []
         then (case get s ''raw_schema'' of
                 JDict raw \<Rightarrow> (case get raw ''fields'' of JList fl \<Rightarrow> listed False fl | _ \<Rightarrow> [])
               | _ \<Rightarrow> [])
         else direct)"

text \<open>Declared fields whose names are strings, no two the same.\<close>

definition well_named :: "fields \<Rightarrow> bool" where
  "well_named ds = (list_all (\<lambda>kf. is_str (fst kf)) ds \<and> distinct (map fst ds))"

section \<open>File handlers\<close>

text \<open>
  A pandas \<^verbatim>\<open>DataFrame\<close>, as far as the code uses one: its column labels and its rows,
  each row as \<^verbatim>\<open>to_dict(orient="records")\<close> gives it, a list of (label, cell) pairs.

  pandas stores a frame by columns and chooses a dtype for each column from the values
  it is given, so a cell does not always read back as the value that went in: integers
  beside a missing cell become floats (\<^verbatim>\<open>1\<close> reads back \<^verbatim>\<open>1.0\<close>, and an integer beyond
  \<^verbatim>\<open>2**53\<close> may change), \<^verbatim>\<open>None\<close> beside numbers becomes not-a-number.  What a column
  of given cells reads back as depends on their values and on the version of pandas
  and is floating point; it is the parameter \<open>infer\<close> of the constructors below, a
  function from the cells given for one column and a position to the cell read back
  at that position.
\<close>

datatype label = Name string | Pos nat

record ('l, 'c) dataframe =
  columns :: "'l list"
  records :: "('l \<times> 'c) list list"

type_synonym frame = "(label, json) dataframe"

definition empty_frame :: "('l, 'c) dataframe" where
  "empty_frame = \<lparr> columns = [], records = [] \<rparr>"

text \<open>The labels of a list in the order in which they are first seen.\<close>

fun first_seen :: "'a list \<Rightarrow> 'a list \<Rightarrow> 'a list" where
  "first_seen seen [] = seen"
| "first_seen seen (x # xs) = first_seen (if x \<in> set seen then seen else seen @ [x]) xs"

text \<open>
  \<^verbatim>\<open>pd.DataFrame(rows)\<close> for a list of dictionaries: the columns are the keys of all
  rows in first-seen order, there is one row per dictionary, and a key a dictionary
  lacks is filled with the missing-value marker (not-a-number) before the dtype of the
  column is chosen.
\<close>

definition column_of :: "'c \<Rightarrow> ('l \<times> 'c) list list \<Rightarrow> 'l \<Rightarrow> 'c list" where
  "column_of fill rows c = map (\<lambda>row. case map_of row c of None \<Rightarrow> fill | Some v \<Rightarrow> v) rows"

definition frame_of_records ::
  "('c list \<Rightarrow> nat \<Rightarrow> 'c) \<Rightarrow> 'c \<Rightarrow> ('l \<times> 'c) list list \<Rightarrow> ('l, 'c) dataframe" where
  "frame_of_records infer fill rows =
     (let cols = first_seen [] (concat (map (map fst) rows))
      in \<lparr> columns = cols,
           records =
             map (\<lambda>i. map (\<lambda>c. (c, infer (column_of fill rows c) i)) cols) [0..<length rows] \<rparr>)"

definition na :: json where
  "na = JFloat FNaN"

text \<open>
  \<^verbatim>\<open>pd.DataFrame(cols)\<close> for a dictionary of lists: one column per key and one row per
  position.  pandas raises \<^verbatim>\<open>ValueError\<close> ("All arrays must be of the same length") when
  the lists differ in length.
\<close>

definition frame_of_columns ::
  "('c list \<Rightarrow> nat \<Rightarrow> 'c) \<Rightarrow> ('l \<times> 'c list) list \<Rightarrow> exn + ('l, 'c) dataframe" where
  "frame_of_columns infer cols =
     (case cols of
        [] \<Rightarrow> Inr empty_frame
      | (k, vs) # rest \<Rightarrow>
          (if list_all (\<lambda>(k', vs'). length vs' = length vs) rest
           then Inr \<lparr> columns = map fst cols,
                      records =
                        map (\<lambda>i. map (\<lambda>(k', vs'). (k', infer vs' i)) cols) [0..<length vs] \<rparr>
           else Inl ValueError))"

text \<open>
  Null as pandas sees it in a cell, \<^verbatim>\<open>None\<close> or not-a-number, and what every version of
  pandas does whatever dtype it chooses: a cell given as null reads back as null.
\<close>

definition is_null :: "json \<Rightarrow> bool" where
  "is_null v = (v = JNull \<or> v = JFloat FNaN)"

definition keeps_null :: "(json list \<Rightarrow> nat \<Rightarrow> json) \<Rightarrow> bool" where
  "keeps_null infer = (\<forall>cells i. i < length cells \<and> is_null (cells ! i) \<longrightarrow> is_null (infer cells i))"

text \<open>\<^verbatim>\<open>max(lens, default=d)\<close> and \<^verbatim>\<open>[None] * n\<close> for an integer \<open>n\<close> that may be negative.\<close>

fun py_max :: "nat list \<Rightarrow> nat \<Rightarrow> nat" where
  "py_max [] dflt = dflt"
| "py_max (x # xs) dflt = fold max xs x"

definition nones :: "int \<Rightarrow> json list" where
  "nones n = replicate (nat n) JNull"

fun list_lengths :: "jdict \<Rightarrow> nat list" where
  "list_lengths [] = []"
| "list_lengths ((k, JList vs) # rest) = length vs # list_lengths rest"
| "list_lengths ((k, other) # rest) = list_lengths rest"

text \<open>
  The row made from one element of a list (case 1 of \<^verbatim>\<open>safe_json_to_df\<close>); \<^verbatim>\<open>json.dumps\<close>
  is the standard library's encoder and is a parameter.  The keys of a dictionary are
  distinct, so the loop of assignments \<^verbatim>\<open>row[k] = ...\<close> is a map over its items.
\<close>

definition normalize_item :: "(json \<Rightarrow> string) \<Rightarrow> json \<Rightarrow> (label \<times> json) list" where
  "normalize_item dumps item =
     (case item of
        JDict d \<Rightarrow> map (\<lambda>(k, v). (Name k, if is_dict v \<or> is_list v then JStr (dumps v) else v)) d
      | _ \<Rightarrow> [(Name ''value'', item)])"

text \<open>The field names that an element of a list brings to the frame.\<close>

definition item_names :: "json \<Rightarrow> label set" where
  "item_names item = (case item of JDict d \<Rightarrow> Name ` fst ` set d | _ \<Rightarrow> {Name ''value''})"

text \<open>The padded column made from one item of a dictionary (case 2).\<close>

definition pad_column :: "nat \<Rightarrow> string \<times> json \<Rightarrow> label \<times> json list" where
  "pad_column max_len kv =
     (case snd kv of
        JList vs \<Rightarrow> (Name (fst kv), vs @ nones (int max_len - int (length vs)))
      | value \<Rightarrow> (Name (fst kv), [value] @ nones (int max_len - 1)))"

text \<open>
  \<^verbatim>\<open>safe_json_to_df\<close>.  Case 3, \<^verbatim>\<open>pd.DataFrame([data])\<close>, is a frame of one column, labelled
  0, and one row.
\<close>

definition safe_json_to_df ::
  "(json list \<Rightarrow> nat \<Rightarrow> json) \<Rightarrow> (json \<Rightarrow> string) \<Rightarrow> json \<Rightarrow> exn + frame" where
  "safe_json_to_df infer dumps data =
     (case data of
        JList items \<Rightarrow> Inr (frame_of_records infer na (map (normalize_item dumps) items))
      | JDict d \<Rightarrow>
          (let max_len = py_max (list_lengths d) 1
           in frame_of_columns infer (map (pad_column max_len) d))
      | _ \<Rightarrow> Inr \<lparr> columns = [Pos 0], records = [[(Pos 0, infer [data] 0)]] \<rparr>)"

text \<open>
  What the module calls from outside: opening and decoding a JSON file, the pandas
  readers, and the readers of the repository's modules \<^verbatim>\<open>smart_readers\<close> and
  \<^verbatim>\<open>pdf_readers\<close>.  Each is a function of the path that returns or raises.
  \<^verbatim>\<open>read_pdf\<close> stands for the value of
  \<^verbatim>\<open>read_pdf_tables(path) or read_pdf_text_ocr(path)\<close>.
\<close>

record io =
  json_load :: "string \<Rightarrow> exn + json"
  read_csv :: "string \<Rightarrow> string option \<Rightarrow> exn + frame"
  read_html :: "string \<Rightarrow> (string \<times> string) option \<Rightarrow> exn + frame list"
  read_xml :: "string \<Rightarrow> exn + frame"
  read_excel :: "string \<Rightarrow> string \<Rightarrow> bool \<Rightarrow> exn + frame"
  read_parquet :: "string \<Rightarrow> exn + frame"
  smart_read_combined :: "string \<Rightarrow> exn + frame"
  read_pdf :: "string \<Rightarrow> exn + frame"

definition read_json ::
  "io \<Rightarrow> (json list \<Rightarrow> nat \<Rightarrow> json) \<Rightarrow> (json \<Rightarrow> string) \<Rightarrow> string \<Rightarrow> frame" where
  "read_json env infer dumps path =
     (case json_load env path of
        Inl e \<Rightarrow> empty_frame
      | Inr data \<Rightarrow>
          (case safe_json_to_df infer dumps data of
             Inl e \<Rightarrow> empty_frame
           | Inr df \<Rightarrow> df))"

text \<open>One attempt of \<^verbatim>\<open>read_html_safely\<close>: the first table, if the call returned any.\<close>

fun first_table :: "exn + frame list \<Rightarrow> frame option" where
  "first_table (Inr (t # ts)) = Some t"
| "first_table _ = None"

definition read_html_safely :: "io \<Rightarrow> string \<Rightarrow> frame" where
  "read_html_safely env path =
     (case first_table (read_html env path (Some (''bs4'', ''lxml''))) of
        Some t \<Rightarrow> t
      | None \<Rightarrow>
          (case first_table (read_html env path (Some (''bs4'', ''html5lib''))) of
             Some t \<Rightarrow> t
           | None \<Rightarrow>
               (case first_table (read_html env path None) of
                  Some t \<Rightarrow> t
                | None \<Rightarrow> empty_frame)))"

definition read_xml_safely :: "io \<Rightarrow> string \<Rightarrow> frame" where
  "read_xml_safely env path =
     (case read_xml env path of Inl e \<Rightarrow> empty_frame | Inr df \<Rightarrow> df)"

definition READERS ::
  "io \<Rightarrow> (json list \<Rightarrow> nat \<Rightarrow> json) \<Rightarrow> (json \<Rightarrow> string) \<Rightarrow> (string \<times> (string \<Rightarrow> exn + frame)) list" where
  "READERS env infer dumps =
     [(''json'', \<lambda>path. Inr (read_json env infer dumps path)),
      (''csv'', \<lambda>path. read_csv env path None),
      (''txt'', \<lambda>path. smart_read_combined env path),
      (''html'', \<lambda>path. Inr (read_html_safely env path)),
      (''md'', \<lambda>path. smart_read_combined env path),
      (''xml'', \<lambda>path. Inr (read_xml_safely env path)),
      (''xlsx'', \<lambda>path. read_excel env path ''openpyxl'' False),
      (''xls'', \<lambda>path. read_excel env path ''xlrd'' True),
      (''tsv'', \<lambda>path. read_csv env path (Some [CHR 0x09])),
      (''pdf'', \<lambda>path. read_pdf env path),
      (''parquet'', \<lambda>path. read_parquet env path)]"

text \<open>Calling the reader registered for an extension.\<close>

definition call_reader ::
  "io \<Rightarrow> (json list \<Rightarrow> nat \<Rightarrow> json) \<Rightarrow> (json \<Rightarrow> string) \<Rightarrow> string \<Rightarrow> string \<Rightarrow> (exn + frame) option" where
  "call_reader env infer dumps ext path =
     map_option (\<lambda>reader. reader path) (map_of (READERS env infer dumps) ext)"

text \<open>An environment in which no file can be opened: every call raises \<^verbatim>\<open>OSError\<close>.\<close>

definition no_files :: io where
  "no_files =
     \<lparr> json_load = (\<lambda>path. Inl OSError),
       read_csv = (\<lambda>path sep. Inl OSError),
       read_html = (\<lambda>path how. Inl OSError),
       read_xml = (\<lambda>path. Inl OSError),
       read_excel = (\<lambda>path engine as_str. Inl OSError),
       read_parquet = (\<lambda>path. Inl OSError),
       smart_read_combined = (\<lambda>path. Inl OSError),
       read_pdf = (\<lambda>path. Inl OSError) \<rparr>"


section \<open>Sanitizing values for the document store\<close>

text \<open>
  Python values as \<^verbatim>\<open>sanitize_for_mongo\<close> tells them apart.  \<open>NpInteger\<close>, \<open>NpFloating\<close> and
  \<open>NpBool\<close> are numpy's scalar wrappers, carrying the value that \<^verbatim>\<open>int\<close>, \<^verbatim>\<open>float\<close> and
  \<^verbatim>\<open>bool\<close> make of them.  \<open>NpArray xs\<close> is an \<^verbatim>\<open>ndarray\<close> of at least one dimension whose
  \<^verbatim>\<open>tolist()\<close> is \<open>xs\<close>: native numbers for a numeric array (each a fresh object), nested
  lists for more dimensions, the stored objects for an array of objects.  \<open>NpNan\<close> is the
  one object \<^verbatim>\<open>np.nan\<close>; it is a Python float, and the test \<^verbatim>\<open>obj is np.nan\<close> holds of it
  and of no other float, whatever its value.  \<open>PObject\<close> is any other object.  The keys
  of a dictionary are values too, and the function leaves them as they are.
\<close>

datatype pyval =
    PNone
  | PBool bool
  | PInt int
  | PFloat pyfloat
  | PStr string
  | PList "pyval list"
  | PTuple "pyval list"
  | PDict "(pyval \<times> pyval) list"
  | NpInteger int
  | NpFloating pyfloat
  | NpBool bool
  | NpArray "pyval list"
  | NpNan
  | PObject string

type_synonym pydict = "(pyval \<times> pyval) list"

fun sanitize_for_mongo :: "pyval \<Rightarrow> pyval" where
  "sanitize_for_mongo (NpInteger i) = PInt i"
| "sanitize_for_mongo (NpFloating f) = PFloat f"
| "sanitize_for_mongo (NpBool b) = PBool b"
| "sanitize_for_mongo (NpArray xs) = PList (map sanitize_for_mongo xs)"
| "sanitize_for_mongo NpNan = PNone"
| "sanitize_for_mongo (PDict items) = PDict (map (\<lambda>kv. (fst kv, sanitize_for_mongo (snd kv))) items)"
| "sanitize_for_mongo (PList xs) = PList (map sanitize_for_mongo xs)"
| "sanitize_for_mongo (PTuple xs) = PList (map sanitize_for_mongo xs)"
| "sanitize_for_mongo obj = obj"

text \<open>A float that is not a number, whichever object holds it.\<close>

fun is_nan :: "pyval \<Rightarrow> bool" where
  "is_nan (PFloat f) = (f = FNaN)"
| "is_nan (NpFloating f) = (f = FNaN)"
| "is_nan NpNan = True"
| "is_nan _ = False"

text \<open>
  A tree the store accepts: no numpy wrapper, array or tuple at any place a value can
  stand (dictionary keys are not values and are left as they are).
\<close>

fun native :: "pyval \<Rightarrow> bool" where
  "native (NpInteger i) = False"
| "native (NpFloating f) = False"
| "native (NpBool b) = False"
| "native (NpArray xs) = False"
| "native NpNan = False"
| "native (PTuple xs) = False"
| "native (PList xs) = list_all native xs"
| "native (PDict items) = list_all (\<lambda>kv. native (snd kv)) items"
| "native _ = True"


section \<open>The pipeline on uploaded bytes\<close>

text \<open>
  \<^verbatim>\<open>run_dynamic_etl_bytes\<close> calls into other modules of the application (extraction,
  the transform pipeline, the schema generator, the schema evolution tracker) and into
  pandas and \<^verbatim>\<open>os.path\<close>.  Each call is a function
  that returns a value or raises; the pipeline is modelled over a record of them.
  The temporary file holds the uploaded bytes under a name ending in the extension, so
  \<open>extract_data\<close> takes the bytes and the extension.  \<open>pd_isna\<close> is the truth value of
  \<^verbatim>\<open>pd.isna(value)\<close> in the \<^verbatim>\<open>if\<close> (which raises for an array of several elements),
  \<open>isna_count\<close> is \<^verbatim>\<open>int(df.isna().sum().sum())\<close>.  Log records are not part of what the
  caller receives and are left out, as is the removal of the temporary file.
\<close>

type_synonym pyframe = "(pyval, pyval) dataframe"

record collaborators =
  splitext :: "string \<Rightarrow> string \<times> string"
  extract_data :: "string \<Rightarrow> string \<Rightarrow> exn + (pyframe option \<times> pyval)"
  run_transform_pipeline :: "pyframe \<Rightarrow> exn + (pyframe \<times> pydict)"
  generate_schema :: "pyframe \<Rightarrow> string \<Rightarrow> pyval \<Rightarrow> exn + pydict"
  add_schema :: "string \<Rightarrow> pydict \<Rightarrow> exn + pydict"
  pd_isna :: "pyval \<Rightarrow> exn + bool"
  isna_count :: "pyframe \<Rightarrow> int"

text \<open>\<^verbatim>\<open>d.get(key, default)\<close> with a string key, \<^verbatim>\<open>df.empty\<close>, and \<^verbatim>\<open>s.replace(" ", "_")\<close>.\<close>

definition pget :: "pydict \<Rightarrow> string \<Rightarrow> pyval \<Rightarrow> pyval" where
  "pget d k dflt = (case map_of d (PStr k) of None \<Rightarrow> dflt | Some v \<Rightarrow> v)"

definition frame_empty :: "('l, 'c) dataframe \<Rightarrow> bool" where
  "frame_empty df = (columns df = [] \<or> records df = [])"

definition underscored :: "string \<Rightarrow> string" where
  "underscored s = map (\<lambda>c. if c = CHR '' '' then CHR ''_'' else c) s"

text \<open>The inner loop: one record of \<^verbatim>\<open>to_dict(orient="records")\<close>, cell by cell.\<close>

fun sanitize_record :: "collaborators \<Rightarrow> (pyval \<times> pyval) list \<Rightarrow> exn + pydict" where
  "sanitize_record c [] = Inr []"
| "sanitize_record c ((key, val) # rest) =
     (case pd_isna c val of
        Inl e \<Rightarrow> Inl e
      | Inr missing \<Rightarrow>
          (case sanitize_record c rest of
             Inl e \<Rightarrow> Inl e
           | Inr others \<Rightarrow> Inr ((key, if missing then PNone else sanitize_for_mongo val) # others)))"

fun sanitize_records :: "collaborators \<Rightarrow> (pyval \<times> pyval) list list \<Rightarrow> exn + pyval list" where
  "sanitize_records c [] = Inr []"
| "sanitize_records c (record # rest) =
     (case sanitize_record c record of
        Inl e \<Rightarrow> Inl e
      | Inr sanitized_record \<Rightarrow>
          (case sanitize_records c rest of
             Inl e \<Rightarrow> Inl e
           | Inr others \<Rightarrow> Inr (PDict sanitized_record # others)))"

text \<open>
  The \<^verbatim>\<open>try\<close> around the tracker: on an exception the candidate schema stays bound to
  \<^verbatim>\<open>schema\<close> and the function goes on.
\<close>

definition track :: "collaborators \<Rightarrow> string \<Rightarrow> pydict \<Rightarrow> pydict" where
  "track c source_id schema =
     (case add_schema c source_id schema of Inl e \<Rightarrow> schema | Inr tracked \<Rightarrow> tracked)"

definition run_dynamic_etl_bytes ::
  "collaborators \<Rightarrow> string \<Rightarrow> string \<Rightarrow> string option \<Rightarrow> exn + pyval" where
  "run_dynamic_etl_bytes c file_bytes filename source_id_arg =
     (let source_id = (case source_id_arg of
                         None \<Rightarrow> underscored (fst (splitext c filename))
                       | Some given \<Rightarrow> given);
          ext = snd (splitext c filename)
      in case extract_data c file_bytes ext of
           Inl e \<Rightarrow> Inl e
         | Inr (df_opt, fragments) \<Rightarrow>
             (case (case df_opt of None \<Rightarrow> None | Some df \<Rightarrow> if frame_empty df then None else Some df) of
                None \<Rightarrow>
                  Inr (PDict [(PStr ''structured_data'', PList []),
                              (PStr ''schema'', PDict []),
                              (PStr ''row_count'', PInt 0),
                              (PStr ''cleaning_stats'', PDict []),
                              (PStr ''parsed_fragments'', fragments)])
              | Some df \<Rightarrow>
                  (case run_transform_pipeline c df of
                     Inl e \<Rightarrow> Inl e
                   | Inr (transformed_df, transform_stats) \<Rightarrow>
                       (case generate_schema c transformed_df source_id fragments of
                          Inl e \<Rightarrow> Inl e
                        | Inr generated \<Rightarrow>
                            (let schema = track c source_id generated
                             in case sanitize_records c (records transformed_df) of
                                  Inl e \<Rightarrow> Inl e
                                | Inr sanitized_structured \<Rightarrow>
                                    (let sanitized_schema = sanitize_for_mongo (PDict schema);
                                         nulls_before = isna_count c df;
                                         nulls_after = isna_count c transformed_df;
                                         nulls_removed = nulls_before - nulls_after;
                                         cleaning_stats =
                                           [(PStr ''nullsRemoved'', PInt (max 0 nulls_removed)),
                                            (PStr ''typesCast'', pget transform_stats ''types_cast'' (PInt 0)),
                                            (PStr ''formatsFixed'', pget transform_stats ''formats_fixed'' (PInt 0)),
                                            (PStr ''duplicatesDropped'', pget transform_stats ''duplicates_dropped'' (PInt 0)),
                                            (PStr ''rows_before'', PInt (int (length (records df)))),
                                            (PStr ''rows_after'', PInt (int (length (records transformed_df)))),
                                            (PStr ''nulls_before'', PInt nulls_before),
                                            (PStr ''nulls_after'', PInt nulls_after)]
                                     in Inr (PDict
                                          [(PStr ''structured_data'', PList sanitized_structured),
                                           (PStr ''schema'', sanitized_schema),
                                           (PStr ''row_count'', PInt (int (length sanitized_structured))),
                                           (PStr ''cleaning_stats'', PDict cleaning_stats),
                                           (PStr ''parsed_fragments'', fragments),
                                           (PStr ''source_id'', PStr source_id),
                                           (PStr ''schema_version'', pget schema ''version'' (PInt 1))])))))))"

text \<open>
  A run in which everything works but the tracker, whose storage is unavailable: a file
  with one column and one row, a transform that changes nothing, and a generated
  schema without a version.
\<close>

definition one_cell :: pyframe where
  "one_cell = \<lparr> columns = [PStr ''a''], records = [[(PStr ''a'', NpInteger 1)]] \<rparr>"

definition candidate :: pydict where
  "candidate = [(PStr ''source_id'', PStr ''data''),
                (PStr ''fields'', PList [PDict [(PStr ''name'', PStr ''a''), (PStr ''type'', PStr ''integer''),
                                               (PStr ''nullable'', PBool False)]]),
                (PStr ''row_count'', PInt 1)]"

definition storage_down :: collaborators where
  "storage_down =
     \<lparr> splitext = (\<lambda>filename. (''data'', ''.csv'')),
       extract_data = (\<lambda>file_bytes ext. Inr (Some one_cell, PList [])),
       run_transform_pipeline = (\<lambda>df. Inr (df, [])),
       generate_schema = (\<lambda>df source_id fragments. Inr candidate),
       add_schema = (\<lambda>source_id schema. Inl OSError),
       pd_isna = (\<lambda>v. Inr (v = PNone \<or> is_nan v)),
       isna_count = (\<lambda>df. 0) \<rparr>"

section \<open>Concrete inputs\<close>

text \<open>
  A text encoder to stand where \<^verbatim>\<open>json.dumps\<close> or \<^verbatim>\<open>repr\<close> is needed at a concrete input.
  It writes integers in decimal and strings between quotes; floats are outside the
  model and are written as a fixed word.
\<close>

fun decimal :: "nat \<Rightarrow> string" where
  "decimal n =
     (if n < 10 then [char_of (48 + n)]
      else decimal (n div 10) @ [char_of (48 + n mod 10)])"

fun joined :: "string \<Rightarrow> string list \<Rightarrow> string" where
  "joined sep [] = []"
| "joined sep [x] = x"
| "joined sep (x # y # rest) = x @ sep @ joined sep (y # rest)"

fun render :: "json \<Rightarrow> string" where
  "render JNull = ''null''"
| "render (JBool b) = (if b then ''true'' else ''false'')"
| "render (JInt i) = (if i < 0 then ''-'' @ decimal (nat (- i)) else decimal (nat i))"
| "render (JFloat f) = ''float''"
| "render (JStr s) = [CHR 0x22] @ s @ [CHR 0x22]"
| "render (JList xs) = ''['' @ joined '', '' (map render xs) @ '']''"
| "render (JDict d) =
     ''{'' @ joined '', '' (map (\<lambda>kv. [CHR 0x22] @ fst kv @ [CHR 0x22] @ '': '' @ render (snd kv)) d) @ ''}''"

text \<open>Two versions of the schema of one source, in the list form of the schema generator.\<close>

definition schema_v1 :: jdict where
  "schema_v1 =
     [(''source_id'', JStr ''S''), (''version'', JInt 1),
      (''fields'', JList [JDict [(''name'', JStr ''a''), (''type'', JStr ''integer''),
                                 (''nullable'', JBool False)]])]"

definition schema_v2 :: jdict where
  "schema_v2 =
     [(''source_id'', JStr ''S''), (''version'', JInt 2),
      (''fields'', JList [JDict [(''name'', JStr ''a''), (''type'', JStr ''float'')],
                          JDict [(''name'', JStr ''b''), (''type'', JStr ''string''),
                                 (''nullable'', JBool True)]])]"

definition fields_v1 :: fields where
  "fields_v1 =
     [(JStr ''a'', [(''name'', JStr ''a''), (''type'', JStr ''integer''), (''nullable'', JBool False)])]"

definition fields_v2 :: fields where
  "fields_v2 =
     [(JStr ''a'', [(''name'', JStr ''a''), (''type'', JStr ''float'')]),
      (JStr ''b'', [(''name'', JStr ''b''), (''type'', JStr ''string''), (''nullable'', JBool True)])]"

text \<open>A schema in the legacy form, a dictionary of fields keyed by name.\<close>

definition schema_legacy :: jdict where
  "schema_legacy =
     [(''fields'', JDict [(''a'', JDict [(''type'', JStr ''integer'')]), (''b'', JStr ''string'')])]"

text \<open>A document with none of the field shapes, and a list of three field objects of which two have no name.\<close>

definition shapeless :: jdict where
  "shapeless = [(''source_id'', JStr ''S''), (''fields'', JStr ''a,b'')]"

definition unnamed_fields :: "json list" where
  "unnamed_fields =
     [JDict [(''type'', JStr ''integer'')],
      JDict [(''name'', JStr ''b'')],
      JDict [(''type'', JStr ''string'')]]"

definition schema_unnamed :: jdict where
  "schema_unnamed = [(''fields'', JList unnamed_fields)]"

text \<open>The payloads of the scenarios of the shape normalizer.\<close>

definition uneven_rows :: "json list" where
  "uneven_rows =
     [JDict [(''a'', JInt 1), (''b'', JStr ''x'')],
      JDict [(''a'', JInt 2)]]"

text \<open>
  The payloads of the other scenarios: a list inside a list, a dictionary with a list
  beside a scalar, and the same with the list empty.
\<close>

definition nested_list :: "json list" where
  "nested_list = [JList [JInt 1, JInt 2]]"

definition list_and_scalar :: jdict where
  "list_and_scalar = [(''a'', JList [JInt 1, JInt 2, JInt 3]), (''b'', JStr ''const'')]"

text \<open>
  The reading of a pandas that hands every cell back as it was given, which is what
  pandas does with a column it stores as Python objects.
\<close>

definition as_given :: "json list \<Rightarrow> nat \<Rightarrow> json" where
  "as_given cells i = cells ! i"
section \<open>Properties of the schema diff\<close>

subsection \<open>Field dictionaries\<close>

lemma key_in_lookup: "key_in k fs = (lookup fs k \<noteq> None)"
  by (induction fs) auto

lemma keys_store:
  "map fst (store fs k f) = (if key_in k fs then map fst fs else map fst fs @ [k])"
  by (induction fs) auto

lemma key_in_str: "key_in (JStr n) fs = (JStr n \<in> fst ` set fs)"
  by (induction fs) auto

lemma member_key_in: "(k, f) \<in> set fs \<Longrightarrow> py_eq k k \<Longrightarrow> key_in k fs"
  by (induction fs) auto

lemma lookup_key_in: "lookup fs k = Some f \<Longrightarrow> key_in k fs"
  by (simp add: key_in_lookup)

lemma lookup_str_member: "lookup fs (JStr n) = Some f \<Longrightarrow> (JStr n, f) \<in> set fs"
  by (induction fs) (auto split: if_splits)

text \<open>Storing keeps the keys apart, so every extraction yields a proper dictionary.\<close>

lemma apart_store: "apart fs \<Longrightarrow> apart (store fs k f)"
proof (induction fs)
  case Nil
  then show ?case by simp
next
  case (Cons a fs)
  obtain k' f' where a: "a = (k', f')" by (cases a)
  show ?case
  proof (cases "py_eq k k'")
    case True
    with Cons a show ?thesis by simp
  next
    case False
    have "list_all (\<lambda>(k'', f''). \<not> py_eq k'' k') (store fs k f)"
      using Cons.prems a False by (induction fs) auto
    with Cons a False show ?thesis by simp
  qed
qed

lemma add_list_fields_apart:
  "add_list_fields p fl fs = Inr gs \<Longrightarrow> apart fs \<Longrightarrow> apart gs"
  by (induction p fl fs rule: add_list_fields.induct)
     (auto simp: dict_set_def apart_store split: sum.splits if_splits)

lemma add_legacy_fields_apart: "apart fs \<Longrightarrow> apart (add_legacy_fields r fd fs)"
  by (induction r fd fs rule: add_legacy_fields.induct) (auto simp: apart_store)

lemma extract_apart: "extract_fields_from_schema r s = Inr fs \<Longrightarrow> apart fs"
  unfolding extract_fields_from_schema_def
  by (auto split: if_splits json.splits sum.splits
      dest: add_list_fields_apart simp: add_legacy_fields_apart)

lemma fields_of_apart: "fields_of r s = Inr fs \<Longrightarrow> apart fs"
  by (auto simp: fields_of_def extract_apart split: if_splits)

lemma lookup_apart:
  "apart fs \<Longrightarrow> (k, f) \<in> set fs \<Longrightarrow> py_eq k k \<Longrightarrow> lookup fs k = Some f"
  by (induction fs) (auto simp: list_all_iff)

lemma apart_str_unique:
  "apart fs \<Longrightarrow> (JStr n, f) \<in> set fs \<Longrightarrow> (JStr n, f') \<in> set fs \<Longrightarrow> f = f'"
proof (induction fs)
  case Nil
  then show ?case by simp
next
  case (Cons a fs)
  obtain k h where a: "a = (k, h)" by (cases a)
  have no: "(JStr n, x) \<notin> set fs" if "k = JStr n" for x
  proof
    assume "(JStr n, x) \<in> set fs"
    moreover from Cons.prems(1) a have "list_all (\<lambda>(k', f'). \<not> py_eq k' k) fs" by simp
    ultimately have "\<not> py_eq (JStr n) k" by (auto simp: list_all_iff)
    with that show False by simp
  qed
  from Cons a no show ?case by auto
qed

subsection \<open>Extraction raises only on an unhashable name\<close>

lemma add_list_fields_returns:
  "hashable_names p fl \<Longrightarrow> \<exists>gs. add_list_fields p fl fs = Inr gs"
  by (induction p fl fs rule: add_list_fields.induct)
     (auto simp: hashable_names_def dict_set_def)

lemma extract_returns:
  assumes "names_ok s"
  shows "\<exists>fs. extract_fields_from_schema repr s = Inr fs"
proof (cases "s = []")
  case True
  then show ?thesis by (simp add: extract_fields_from_schema_def)
next
  case False
  have "\<exists>fs. (case get s ''fields'' of
                JList fl \<Rightarrow> add_list_fields True fl []
              | JDict fd \<Rightarrow> Inr (add_legacy_fields repr fd [])
              | _ \<Rightarrow> Inr []) = Inr fs"
    using assms add_list_fields_returns[of True _ "[]"]
    by (auto simp: names_ok_def split: json.splits)
  then obtain fs where fs: "(case get s ''fields'' of
                JList fl \<Rightarrow> add_list_fields True fl []
              | JDict fd \<Rightarrow> Inr (add_legacy_fields repr fd [])
              | _ \<Rightarrow> Inr []) = Inr fs" ..
  have "\<exists>gs. (case get s ''raw_schema'' of
                     JDict raw \<Rightarrow>
                       (case get raw ''fields'' of
                          JList fl \<Rightarrow> add_list_fields False fl fs
                        | _ \<Rightarrow> Inr fs)
                   | _ \<Rightarrow> Inr fs) = Inr gs"
    using assms add_list_fields_returns[of False _ fs]
    by (auto simp: names_ok_def split: json.splits)
  with fs False show ?thesis
    by (auto simp: extract_fields_from_schema_def)
qed

lemma fields_of_returns: "names_ok s \<Longrightarrow> \<exists>fs. fields_of repr s = Inr fs"
  using extract_returns by (simp add: fields_of_def)

lemma no_field_shape_fields: "no_field_shape s \<Longrightarrow> fields_of repr s = Inr []"
  by (auto simp: no_field_shape_def fields_of_def extract_fields_from_schema_def
      split: json.splits)

subsection \<open>String names\<close>

lemma is_str_hashable: "is_str k \<Longrightarrow> hashable k"
  by (cases k) auto

lemma store_str_keys:
  assumes "is_str k"
  shows "set (map fst (store fs k f)) = insert k (set (map fst fs))"
    and "distinct (map fst fs) \<Longrightarrow> distinct (map fst (store fs k f))"
proof -
  from assms obtain n where k: "k = JStr n" by (cases k) auto
  show "set (map fst (store fs k f)) = insert k (set (map fst fs))"
    by (auto simp: keys_store k key_in_str)
  show "distinct (map fst fs) \<Longrightarrow> distinct (map fst (store fs k f))"
    by (auto simp: keys_store k key_in_str)
qed

lemma add_list_fields_str_keys:
  assumes "list_all is_str (map (field_name p) (dict_items fl))"
  shows "\<exists>gs. add_list_fields p fl fs = Inr gs
           \<and> set (map fst gs) = set (map fst fs) \<union> set (map (field_name p) (dict_items fl))
           \<and> (distinct (map fst fs) \<longrightarrow> distinct (map fst gs))"
  using assms
proof (induction p fl fs rule: add_list_fields.induct)
  case (1 p fs)
  then show ?case by simp
next
  case (2 p field rest fs)
  from 2(2) have s: "is_str (field_name p field)"
    and r: "list_all is_str (map (field_name p) (dict_items rest))" by simp_all
  have ds: "dict_set fs (field_name p field) field = Inr (store fs (field_name p field) field)"
    using s by (simp add: dict_set_def is_str_hashable)
  from 2(1)[OF ds r] obtain gs where
    gs: "add_list_fields p rest (store fs (field_name p field) field) = Inr gs"
        "set (map fst gs) = set (map fst (store fs (field_name p field) field))
           \<union> set (map (field_name p) (dict_items rest))"
        "distinct (map fst (store fs (field_name p field) field)) \<longrightarrow> distinct (map fst gs)"
    by blast
  show ?case
    using gs ds store_str_keys[OF s, of fs field] by auto
qed simp_all

subsection \<open>Schema descriptors\<close>

text \<open>
  A schema descriptor of the data model is extracted without an exception, and its names,
  types and nullabilities are strings and booleans, which equal themselves.
\<close>

lemma descriptor_field_name:
  "descriptor_field (JDict f) \<Longrightarrow> is_str (field_name True f)"
  by (auto simp: descriptor_field_def field_name_def py_or_def)

lemma descriptor_field_plain:
  assumes "descriptor_field (JDict f)" and "is_str k"
  shows "plain_field (k, f)"
proof -
  from assms(2) obtain n where "k = JStr n" by (cases k) auto
  moreover from assms(1) obtain t where "get f ''type'' = JStr t"
    by (cases "get f ''type''") (auto simp: descriptor_field_def)
  then have "field_type f = JStr t"
    by (auto simp: field_type_def get_def get_default_def split: option.splits)
  moreover from assms(1) obtain b where "get f ''nullable'' = JBool b"
    by (cases "get f ''nullable''") (auto simp: descriptor_field_def)
  then have "field_nullable f = JBool b"
    by (auto simp: field_nullable_def get_def get_default_def split: option.splits)
  ultimately show ?thesis by (simp add: plain_field_def self_equal_def)
qed

lemma store_members:
  "(k', f') \<in> set (store fs k f) \<Longrightarrow> (k', f') \<in> set fs \<or> (f' = f \<and> (k' = k \<or> py_eq k k'))"
  by (induction fs) (auto split: if_splits)

lemma add_list_fields_descriptor:
  assumes "add_list_fields True fl fs = Inr gs" and "list_all descriptor_field fl"
    and "list_all plain_field fs"
  shows "list_all plain_field gs"
  using assms
proof (induction "True" fl fs rule: add_list_fields.induct)
  case (1 fs)
  then show ?case by simp
next
  case (2 field rest fs)
  from 2(3) have df: "descriptor_field (JDict field)" and dr: "list_all descriptor_field rest"
    by simp_all
  from df have s: "is_str (field_name True field)" by (rule descriptor_field_name)
  then obtain n where n: "field_name True field = JStr n"
    by (cases "field_name True field") auto
  have ds: "dict_set fs (field_name True field) field = Inr (store fs (JStr n) field)"
    by (simp add: dict_set_def n)
  have "plain_field kf" if "kf \<in> set (store fs (JStr n) field)" for kf
  proof -
    obtain k' f' where kf: "kf = (k', f')" by (cases kf)
    from store_members[of k' f' fs "JStr n" field] that kf
    consider "(k', f') \<in> set fs" | "f' = field" "k' = JStr n"
      by auto
    then show ?thesis
    proof cases
      case 1
      with 2(4) kf show ?thesis by (auto simp: list_all_iff)
    next
      case 2
      with df kf show ?thesis by (simp add: descriptor_field_plain)
    qed
  qed
  then have p: "list_all plain_field (store fs (JStr n) field)"
    by (simp add: list_all_iff)
  from 2(2) ds n have "add_list_fields True rest (store fs (JStr n) field) = Inr gs" by simp
  from 2(1)[OF ds[unfolded n[symmetric]] this[unfolded n[symmetric]] dr p[unfolded n[symmetric]]]
  show ?case .
qed (simp_all add: descriptor_field_def)

lemma descriptor_plain:
  assumes "descriptor s"
  shows "\<exists>fs. fields_of repr s = Inr fs \<and> list_all plain_field fs"
proof -
  from assms obtain fl where fl: "get s ''fields'' = JList fl" "list_all descriptor_field fl"
    and raw: "map_of s ''raw_schema'' = None"
    by (auto simp: descriptor_def split: json.splits)
  have "list_all is_str (map (field_name True) (dict_items fl))"
    using fl(2)
  proof (induction fl rule: dict_items.induct)
    case (2 f rest)
    then show ?case by (simp add: descriptor_field_name)
  qed (simp_all add: descriptor_field_def)
  then obtain fs where fs: "add_list_fields True fl [] = Inr fs"
    using add_list_fields_str_keys[of True fl "[]"] by blast
  from add_list_fields_descriptor[OF fs fl(2)] have p: "list_all plain_field fs" by simp
  from fl(1) have "s \<noteq> []" by (auto simp: get_def get_default_def)
  with fl(1) fs raw have "fields_of repr s = Inr fs"
    by (simp add: fields_of_def extract_fields_from_schema_def get_def get_default_def)
  with p show ?thesis by blast
qed

lemma descriptor_names_ok: "descriptor s \<Longrightarrow> names_ok s"
proof -
  assume d: "descriptor s"
  then obtain fl where fl: "get s ''fields'' = JList fl" "list_all descriptor_field fl"
    and raw: "map_of s ''raw_schema'' = None"
    by (auto simp: descriptor_def split: json.splits)
  have "hashable (field_name True f)" if "JDict f \<in> set fl" for f
    using that fl(2) by (auto simp: list_all_iff intro: is_str_hashable descriptor_field_name)
  then have "hashable_names True fl"
    by (auto simp: hashable_names_def list_all_iff split: json.splits)
  with fl(1) raw show ?thesis
    by (simp add: names_ok_def get_def get_default_def)
qed

subsection \<open>The three lists of the diff\<close>

lemma only_in_nothing: "only_in fs [] = map snd fs"
  by (simp add: only_in_def)

lemma only_in_empty: "only_in [] fs = []"
  by (simp add: only_in_def)

lemma only_in_sound: "a \<in> set (only_in fs gs) \<Longrightarrow> \<exists>k. (k, a) \<in> set fs \<and> \<not> key_in k gs"
  by (auto simp: only_in_def)

lemma only_in_self: "list_all plain_field fs \<Longrightarrow> only_in fs fs = []"
proof -
  have "key_in k fs" if "(k, f) \<in> set fs" and "list_all plain_field fs" for k f
  proof -
    from that have "py_eq k k"
      by (auto simp: list_all_iff plain_field_def self_equal_def)
    with that(1) show ?thesis by (rule member_key_in)
  qed
  then show "list_all plain_field fs \<Longrightarrow> only_in fs fs = []"
    by (auto simp: only_in_def filter_empty_conv)
qed

lemma changed_entries_none:
  "list_all (\<lambda>(k, f). case lookup gs k of None \<Rightarrow> True | Some g \<Rightarrow> \<not> differs f g) fs
   \<Longrightarrow> changed_entries fs gs = []"
  by (induction fs gs rule: changed_entries.induct) (auto split: option.splits)

lemma changed_entries_self:
  assumes "apart fs" and "list_all plain_field fs"
  shows "changed_entries fs fs = []"
proof (rule changed_entries_none)
  show "list_all (\<lambda>(k, f). case lookup fs k of None \<Rightarrow> True | Some g \<Rightarrow> \<not> differs f g) fs"
    unfolding list_all_iff
  proof safe
    fix k f
    assume m: "(k, f) \<in> set fs"
    with assms(2) have p: "py_eq k k" "py_eq (field_type f) (field_type f)"
      "py_eq (field_nullable f) (field_nullable f)"
      by (auto simp: list_all_iff plain_field_def self_equal_def)
    from lookup_apart[OF assms(1) m p(1)] p(2,3)
    show "case lookup fs k of None \<Rightarrow> True | Some g \<Rightarrow> \<not> differs f g"
      by (simp add: differs_def)
  qed
qed

lemma changed_entries_sound:
  "e \<in> set (changed_entries fs gs) \<Longrightarrow>
   \<exists>k f g. (k, f) \<in> set fs \<and> lookup gs k = Some g \<and> differs f g \<and> e = change_entry k f g"
  by (induction fs gs rule: changed_entries.induct) (auto split: option.splits if_splits)

lemma changed_entries_complete:
  "(k, f) \<in> set fs \<Longrightarrow> lookup gs k = Some g \<Longrightarrow> differs f g \<Longrightarrow>
   change_entry k f g \<in> set (changed_entries fs gs)"
  by (induction fs gs rule: changed_entries.induct) (auto split: option.splits if_splits)

lemma get_name_change_entry: "get (change_entry k f g) ''name'' = k"
  by (simp add: change_entry_def get_def get_default_def)

lemma compare_schemas_parts:
  assumes "compare_schemas repr old new = Inr d"
  obtains old_fields new_fields where
    "(case old of None \<Rightarrow> Inr [] | Some s \<Rightarrow> fields_of repr s) = Inr old_fields"
    and "fields_of repr new = Inr new_fields"
    and "d = diff_of old_fields new_fields"
  using assms by (auto simp: compare_schemas_def split: sum.splits)

subsection \<open>Evaluation at the concrete schemas\<close>

lemma fields_of_v1: "fields_of repr schema_v1 = Inr fields_v1"
  by (simp add: fields_of_def extract_fields_from_schema_def schema_v1_def fields_v1_def
      get_def get_default_def dict_set_def field_name_def py_or_def)

lemma fields_of_v2: "fields_of repr schema_v2 = Inr fields_v2"
  by (simp add: fields_of_def extract_fields_from_schema_def schema_v2_def fields_v2_def
      get_def get_default_def dict_set_def field_name_def py_or_def)

lemma plain_fields_v2: "list_all plain_field fields_v2"
  by (simp add: fields_v2_def plain_field_def self_equal_def field_type_def field_nullable_def
      get_default_def)

lemma names_ok_v1: "names_ok schema_v1"
  by (simp add: names_ok_def hashable_names_def schema_v1_def get_def get_default_def
      field_name_def py_or_def)

lemma no_field_shape_shapeless: "no_field_shape shapeless"
  by (simp add: no_field_shape_def shapeless_def get_def get_default_def)

lemma resolved_names_unnamed:
  "resolved_names unnamed_fields = [JStr ''unknown'', JStr ''b'', JStr ''unknown'']"
  by (simp add: resolved_names_def unnamed_fields_def field_name_def get_def get_default_def
      py_or_def)

subsection \<open>The claims about \<^verbatim>\<open>compare_schemas\<close>\<close>

text \<open>
  Claim C7.  Comparing a schema with itself yields no added, no removed and no changed
  field; and in any diff, every changed entry comes from a field whose type or
  nullability differs, every added field from a name that the old schema lacks and every
  removed field from a name that the new schema lacks, so that a field present on both
  sides with the same type and nullability appears nowhere.  The first part holds of
  every schema descriptor of the data model, and more generally of every schema whose
  extraction raises nothing and in which no name, type or nullability is not-a-number
  (the one value Python finds unequal to itself).
\<close>

theorem compare_schemas_same_schema:
  "(descriptor s \<longrightarrow>
      (\<exists>d. compare_schemas repr (Some s) s = Inr d
          \<and> added d = [] \<and> removed d = [] \<and> changed d = []))
   \<and> (fields_of repr s = Inr fs \<and> list_all plain_field fs \<longrightarrow>
      (\<exists>d. compare_schemas repr (Some s) s = Inr d
          \<and> added d = [] \<and> removed d = [] \<and> changed d = []))
   \<and> (compare_schemas repr old new = Inr d' \<longrightarrow>
        (\<exists>old_fields new_fields.
            (case old of None \<Rightarrow> Inr [] | Some s \<Rightarrow> fields_of repr s) = Inr old_fields
          \<and> fields_of repr new = Inr new_fields
          \<and> (\<forall>e \<in> set (changed d'). \<exists>k f g. (k, f) \<in> set old_fields
                \<and> lookup new_fields k = Some g \<and> differs f g \<and> e = change_entry k f g)
          \<and> (\<forall>a \<in> set (added d'). \<exists>k. (k, a) \<in> set new_fields \<and> \<not> key_in k old_fields)
          \<and> (\<forall>r \<in> set (removed d'). \<exists>k. (k, r) \<in> set old_fields \<and> \<not> key_in k new_fields)))"
proof (intro conjI impI)
  have same: "\<exists>d. compare_schemas repr (Some s) s = Inr d
          \<and> added d = [] \<and> removed d = [] \<and> changed d = []"
    if e: "fields_of repr s = Inr gs" and p: "list_all plain_field gs" for gs
  proof -
    from e have a: "apart gs" by (rule fields_of_apart)
    from a p have "changed_entries gs gs = []" by (rule changed_entries_self)
    with e p show ?thesis
      by (simp add: compare_schemas_def diff_of_def Let_def only_in_self)
  qed
  {
    assume "descriptor s"
    then obtain gs where "fields_of repr s = Inr gs" "list_all plain_field gs"
      using descriptor_plain by blast
    then show "\<exists>d. compare_schemas repr (Some s) s = Inr d
          \<and> added d = [] \<and> removed d = [] \<and> changed d = []"
      by (rule same)
  next
    assume "fields_of repr s = Inr fs \<and> list_all plain_field fs"
    then show "\<exists>d. compare_schemas repr (Some s) s = Inr d
          \<and> added d = [] \<and> removed d = [] \<and> changed d = []"
      using same by blast
  }
next
  assume "compare_schemas repr old new = Inr d'"
  then obtain old_fields new_fields where
    o: "(case old of None \<Rightarrow> Inr [] | Some s \<Rightarrow> fields_of repr s) = Inr old_fields"
    and n: "fields_of repr new = Inr new_fields"
    and d: "d' = diff_of old_fields new_fields"
    by (rule compare_schemas_parts)
  have "\<forall>e \<in> set (changed d'). \<exists>k f g. (k, f) \<in> set old_fields
          \<and> lookup new_fields k = Some g \<and> differs f g \<and> e = change_entry k f g"
    using changed_entries_sound by (simp add: d diff_of_def Let_def)
  moreover have "\<forall>a \<in> set (added d'). \<exists>k. (k, a) \<in> set new_fields \<and> \<not> key_in k old_fields"
    using only_in_sound by (simp add: d diff_of_def Let_def)
  moreover have "\<forall>r \<in> set (removed d'). \<exists>k. (k, r) \<in> set old_fields \<and> \<not> key_in k new_fields"
    using only_in_sound by (simp add: d diff_of_def Let_def)
  ultimately show "\<exists>old_fields new_fields.
            (case old of None \<Rightarrow> Inr [] | Some s \<Rightarrow> fields_of repr s) = Inr old_fields
          \<and> fields_of repr new = Inr new_fields
          \<and> (\<forall>e \<in> set (changed d'). \<exists>k f g. (k, f) \<in> set old_fields
                \<and> lookup new_fields k = Some g \<and> differs f g \<and> e = change_entry k f g)
          \<and> (\<forall>a \<in> set (added d'). \<exists>k. (k, a) \<in> set new_fields \<and> \<not> key_in k old_fields)
          \<and> (\<forall>r \<in> set (removed d'). \<exists>k. (k, r) \<in> set old_fields \<and> \<not> key_in k new_fields)"
    using o n by blast
qed

theorem compare_schemas_same_schema_witness:
  "descriptor schema_v1
   \<and> (\<exists>d. compare_schemas render (Some schema_v1) schema_v1 = Inr d
          \<and> added d = [] \<and> removed d = [] \<and> changed d = [])
   \<and> fields_of render schema_v2 = Inr fields_v2
   \<and> list_all plain_field fields_v2
   \<and> (\<exists>d. compare_schemas render (Some schema_v2) schema_v2 = Inr d
          \<and> added d = [] \<and> removed d = [] \<and> changed d = [])
   \<and> compare_schemas render (Some schema_v1) schema_v2 = Inr (diff_of fields_v1 fields_v2)
   \<and> (\<exists>old_fields new_fields.
            fields_of render schema_v1 = Inr old_fields
          \<and> fields_of render schema_v2 = Inr new_fields
          \<and> (\<forall>e \<in> set (changed (diff_of fields_v1 fields_v2)). \<exists>k f g. (k, f) \<in> set old_fields
                \<and> lookup new_fields k = Some g \<and> differs f g \<and> e = change_entry k f g)
          \<and> (\<forall>a \<in> set (added (diff_of fields_v1 fields_v2)).
                \<exists>k. (k, a) \<in> set new_fields \<and> \<not> key_in k old_fields)
          \<and> (\<forall>r \<in> set (removed (diff_of fields_v1 fields_v2)).
                \<exists>k. (k, r) \<in> set old_fields \<and> \<not> key_in k new_fields))"
proof -
  have c: "compare_schemas render (Some schema_v1) schema_v2 = Inr (diff_of fields_v1 fields_v2)"
    by (simp add: compare_schemas_def fields_of_v1 fields_of_v2)
  have dv1: "descriptor schema_v1"
    by (simp add: descriptor_def descriptor_field_def schema_v1_def get_def get_default_def)
  from compare_schemas_same_schema[of schema_v1 render] dv1
  have zero: "\<exists>d. compare_schemas render (Some schema_v1) schema_v1 = Inr d
          \<and> added d = [] \<and> removed d = [] \<and> changed d = []"
    by blast
  note t = compare_schemas_same_schema
    [of schema_v2 render fields_v2 "Some schema_v1" schema_v2 "diff_of fields_v1 fields_v2"]
  from t fields_of_v2 plain_fields_v2
  have one: "\<exists>d. compare_schemas render (Some schema_v2) schema_v2 = Inr d
          \<and> added d = [] \<and> removed d = [] \<and> changed d = []"
    by blast
  from t c
  have two: "\<exists>old_fields new_fields.
            fields_of render schema_v1 = Inr old_fields
          \<and> fields_of render schema_v2 = Inr new_fields
          \<and> (\<forall>e \<in> set (changed (diff_of fields_v1 fields_v2)). \<exists>k f g. (k, f) \<in> set old_fields
                \<and> lookup new_fields k = Some g \<and> differs f g \<and> e = change_entry k f g)
          \<and> (\<forall>a \<in> set (added (diff_of fields_v1 fields_v2)).
                \<exists>k. (k, a) \<in> set new_fields \<and> \<not> key_in k old_fields)
          \<and> (\<forall>r \<in> set (removed (diff_of fields_v1 fields_v2)).
                \<exists>k. (k, r) \<in> set old_fields \<and> \<not> key_in k new_fields)"
    by simp
  from dv1 zero fields_of_v2 plain_fields_v2 one c two show ?thesis by (intro conjI)
qed

subsection \<open>The fields a document declares\<close>

lemma store_fresh: "\<not> key_in k fs \<Longrightarrow> store fs k f = fs @ [(k, f)]"
  by (induction fs) auto

lemma store_nonempty: "store fs k f \<noteq> []"
  by (cases fs) (auto split: if_splits)

lemma store_values: "snd ` set (store fs k f) \<subseteq> insert f (snd ` set fs)"
  using store_members[of _ _ fs k f] by force

lemma listed_Cons:
  "listed wp (JDict field # rest) = (field_name wp field, field) # listed wp rest"
  by (simp add: listed_def)

lemma add_list_fields_listed:
  assumes "list_all (\<lambda>kf. is_str (fst kf)) (listed wp fl)"
    and "distinct (map fst fs @ map fst (listed wp fl))"
  shows "add_list_fields wp fl fs = Inr (fs @ listed wp fl)"
  using assms
proof (induction wp fl fs rule: add_list_fields.induct)
  case (2 wp field rest fs)
  let ?k = "field_name wp field"
  from 2(2) obtain n where n: "?k = JStr n" by (cases ?k) (auto simp: listed_def)
  from 2(3) have "?k \<notin> fst ` set fs" by (auto simp: listed_def)
  then have "\<not> key_in ?k fs" by (simp add: n key_in_str)
  then have s: "dict_set fs ?k field = Inr (fs @ [(?k, field)])"
    by (simp add: dict_set_def n store_fresh)
  have "add_list_fields wp rest (fs @ [(?k, field)]) = Inr ((fs @ [(?k, field)]) @ listed wp rest)"
    using 2(2,3) by (intro 2(1)[OF s]) (auto simp: listed_def)
  with s show ?case by (simp add: listed_def)
qed (simp_all add: listed_def)

lemma legacy_field_step:
  assumes "JStr name \<notin> fst ` set fs"
  shows "store fs (JStr name) (snd (legacy_field repr (name, meta))) = fs @ [legacy_field repr (name, meta)]"
proof -
  from assms have "\<not> key_in (JStr name) fs" by (simp add: key_in_str)
  then show ?thesis by (simp add: store_fresh legacy_field_def)
qed

lemma add_legacy_fields_step:
  "add_legacy_fields repr ((name, meta) # rest) fs
     = add_legacy_fields repr rest (store fs (JStr name) (snd (legacy_field repr (name, meta))))"
  by (cases meta) (simp_all add: legacy_field_def)

lemma add_legacy_fields_listed:
  assumes "distinct (map fst fs @ map (\<lambda>nm. JStr (fst nm)) fd)"
  shows "add_legacy_fields repr fd fs = fs @ map (legacy_field repr) fd"
  using assms
proof (induction fd arbitrary: fs)
  case Nil
  then show ?case by simp
next
  case (Cons nm rest)
  obtain name meta where nm: "nm = (name, meta)" by (cases nm)
  from Cons.prems nm have fresh: "JStr name \<notin> fst ` set fs" by auto
  have d: "distinct (map fst (fs @ [legacy_field repr (name, meta)]) @ map (\<lambda>nm. JStr (fst nm)) rest)"
    using Cons.prems nm by (auto simp: legacy_field_def)
  show ?case
    unfolding nm add_legacy_fields_step legacy_field_step[OF fresh]
    using Cons.IH[OF d] by simp
qed

lemma add_list_fields_values:
  "add_list_fields wp fl fs = Inr gs \<Longrightarrow>
     snd ` set gs \<subseteq> snd ` set fs \<union> snd ` set (listed wp fl)
     \<and> (gs = [] \<longleftrightarrow> fs = [] \<and> listed wp fl = [])"
proof (induction wp fl fs rule: add_list_fields.induct)
  case (2 wp field rest fs)
  from 2(2) obtain fs' where s: "dict_set fs (field_name wp field) field = Inr fs'"
    and r: "add_list_fields wp rest fs' = Inr gs"
    by (auto split: sum.splits)
  from s have fs': "fs' = store fs (field_name wp field) field"
    by (auto simp: dict_set_def split: if_splits)
  from 2(1)[OF s r] have a: "snd ` set gs \<subseteq> snd ` set fs' \<union> snd ` set (listed wp rest)"
    and e: "gs = [] \<longleftrightarrow> fs' = [] \<and> listed wp rest = []"
    by blast+
  have b: "snd ` set fs' \<subseteq> insert field (snd ` set fs)"
    unfolding fs' by (rule store_values)
  have n: "fs' \<noteq> []" unfolding fs' by (rule store_nonempty)
  have "snd ` set gs \<subseteq> snd ` set fs \<union> insert field (snd ` set (listed wp rest))"
    using a b by blast
  moreover have "gs \<noteq> []" using e n by simp
  ultimately show ?case by (simp add: listed_Cons)
qed (auto simp: listed_def)

lemma add_legacy_fields_values:
  "snd ` set (add_legacy_fields repr fd fs) \<subseteq> snd ` set fs \<union> snd ` set (map (legacy_field repr) fd)
   \<and> (add_legacy_fields repr fd fs = [] \<longleftrightarrow> fs = [] \<and> fd = [])"
proof (induction fd arbitrary: fs)
  case Nil
  then show ?case by simp
next
  case (Cons nm rest)
  obtain name meta where nm: "nm = (name, meta)" by (cases nm)
  let ?f = "snd (legacy_field repr (name, meta))"
  let ?fs = "store fs (JStr name) ?f"
  let ?gs = "add_legacy_fields repr rest ?fs"
  from Cons[of ?fs] have a: "snd ` set ?gs \<subseteq> snd ` set ?fs \<union> snd ` set (map (legacy_field repr) rest)"
    and e: "?gs = [] \<longleftrightarrow> ?fs = [] \<and> rest = []"
    by blast+
  have b: "snd ` set ?fs \<subseteq> insert ?f (snd ` set fs)"
    by (rule store_values)
  have n: "?fs \<noteq> []" by (rule store_nonempty)
  have "snd ` set ?gs \<subseteq> snd ` set fs \<union> insert ?f (snd ` set (map (legacy_field repr) rest))"
    using a b by blast
  moreover have "?gs \<noteq> []" using e n by simp
  ultimately show ?case unfolding nm add_legacy_fields_step by simp
qed

lemma fields_of_declared:
  assumes "well_named (declared repr s)"
  shows "fields_of repr s = Inr (declared repr s)"
proof -
  let ?direct = "case get s ''fields'' of
                      JList fl \<Rightarrow> listed True fl
                    | JDict fd \<Rightarrow> map (legacy_field repr) fd
                    | _ \<Rightarrow> []"
  let ?raw = "case get s ''raw_schema'' of
                 JDict raw \<Rightarrow> (case get raw ''fields'' of JList fl \<Rightarrow> listed False fl | _ \<Rightarrow> [])
               | _ \<Rightarrow> []"
  have d: "declared repr s = (if ?direct = [] then ?raw else ?direct)"
    by (simp add: declared_def Let_def)
  have first: "(case get s ''fields'' of
                JList fl \<Rightarrow> add_list_fields True fl []
              | JDict fd \<Rightarrow> Inr (add_legacy_fields repr fd [])
              | _ \<Rightarrow> Inr []) = Inr ?direct"
  proof (cases "?direct = []")
    case True
    then show ?thesis
      by (cases "get s ''fields''")
         (auto simp: listed_def add_list_fields_listed[of True _ "[]", unfolded listed_def])
  next
    case False
    with assms d have w: "well_named ?direct" by simp
    show ?thesis
    proof (cases "get s ''fields''")
      case (JList fl)
      with w show ?thesis
        by (simp add: well_named_def add_list_fields_listed)
    next
      case (JDict fd)
      with w have "distinct (map (\<lambda>nm. JStr (fst nm)) fd)"
        by (simp add: well_named_def legacy_field_def comp_def)
      with JDict show ?thesis by (simp add: add_legacy_fields_listed)
    qed simp_all
  qed
  show ?thesis
  proof (cases "?direct = []")
    case False
    with d have "declared repr s = ?direct" by simp
    moreover from False have "s \<noteq> []" by (auto simp: get_def get_default_def)
    ultimately show ?thesis
      using first False by (simp add: fields_of_def extract_fields_from_schema_def)
  next
    case True
    with d have dr: "declared repr s = ?raw" by simp
    with assms have w: "well_named ?raw" by simp
    have second: "(case get s ''raw_schema'' of
                     JDict raw \<Rightarrow>
                       (case get raw ''fields'' of
                          JList fl \<Rightarrow> add_list_fields False fl []
                        | _ \<Rightarrow> Inr [])
                   | _ \<Rightarrow> Inr []) = Inr ?raw"
      using w by (auto simp: well_named_def add_list_fields_listed split: json.splits)
    show ?thesis
    proof (cases "s = []")
      case True
      then show ?thesis by (simp add: fields_of_def declared_def get_def get_default_def)
    next
      case False
      with first True second dr show ?thesis
        by (simp add: fields_of_def extract_fields_from_schema_def)
    qed
  qed
qed


lemma fields_of_values:
  assumes "fields_of repr s = Inr fs"
  shows "snd ` set fs \<subseteq> snd ` set (declared repr s) \<and> (fs = [] \<longleftrightarrow> declared repr s = [])"
proof (cases "s = []")
  case True
  with assms show ?thesis by (simp add: fields_of_def declared_def get_def get_default_def)
next
  case False
  let ?direct = "case get s ''fields'' of
                      JList fl \<Rightarrow> listed True fl
                    | JDict fd \<Rightarrow> map (legacy_field repr) fd
                    | _ \<Rightarrow> []"
  let ?raw = "case get s ''raw_schema'' of
                 JDict raw \<Rightarrow> (case get raw ''fields'' of JList fl \<Rightarrow> listed False fl | _ \<Rightarrow> [])
               | _ \<Rightarrow> []"
  have d: "declared repr s = (if ?direct = [] then ?raw else ?direct)"
    by (simp add: declared_def Let_def)
  from assms False obtain f1 where
    f1: "(case get s ''fields'' of
                JList fl \<Rightarrow> add_list_fields True fl []
              | JDict fd \<Rightarrow> Inr (add_legacy_fields repr fd [])
              | _ \<Rightarrow> Inr []) = Inr f1"
    and rest: "(if f1 = []
             then (case get s ''raw_schema'' of
                     JDict raw \<Rightarrow>
                       (case get raw ''fields'' of
                          JList fl \<Rightarrow> add_list_fields False fl f1
                        | _ \<Rightarrow> Inr f1)
                   | _ \<Rightarrow> Inr f1)
             else Inr f1) = Inr fs"
    by (auto simp: fields_of_def extract_fields_from_schema_def split: sum.splits)
  have v1: "snd ` set f1 \<subseteq> snd ` set ?direct \<and> (f1 = [] \<longleftrightarrow> ?direct = [])"
  proof (cases "get s ''fields''")
    case (JList fl)
    with f1 add_list_fields_values[of True fl "[]" f1] show ?thesis by simp
  next
    case (JDict fd)
    with f1 add_legacy_fields_values[of repr fd "[]"] show ?thesis by auto
  qed (use f1 in auto)
  show ?thesis
  proof (cases "f1 = []")
    case False
    with rest have "fs = f1" by simp
    with v1 d False show ?thesis by simp
  next
    case True
    with v1 d have dr: "declared repr s = ?raw" by simp
    have "snd ` set fs \<subseteq> snd ` set ?raw \<and> (fs = [] \<longleftrightarrow> ?raw = [])"
    proof (cases "get s ''raw_schema''")
      case (JDict raw)
      show ?thesis
      proof (cases "get raw ''fields''")
        case (JList fl)
        with rest True JDict add_list_fields_values[of False fl "[]" fs] show ?thesis by simp
      qed (use rest True JDict in auto)
    qed (use rest True in auto)
    with dr show ?thesis by simp
  qed
qed

lemma declared_v2: "declared repr schema_v2 = fields_v2"
  by (simp add: declared_def schema_v2_def fields_v2_def listed_def get_def get_default_def
      field_name_def py_or_def)

lemma declared_legacy:
  "declared repr schema_legacy
     = [(JStr ''a'', [(''type'', JStr ''integer''), (''name'', JStr ''a'')]),
        (JStr ''b'', [(''name'', JStr ''b''), (''type'', JStr ''string'')])]"
  by (simp add: declared_def schema_legacy_def legacy_field_def get_def get_default_def)

lemma names_ok_v2: "names_ok schema_v2"
  by (simp add: names_ok_def schema_v2_def hashable_names_def get_def get_default_def
      field_name_def py_or_def)

lemma names_ok_legacy: "names_ok schema_legacy"
  by (simp add: names_ok_def schema_legacy_def get_def get_default_def)

text \<open>
  Claim C8.  When the old schema is absent, or is a document with no field shape in
  any of the known forms, the old side counts as having no field: the call returns,
  \<^verbatim>\<open>removed\<close> and \<^verbatim>\<open>changed\<close> are empty, and \<^verbatim>\<open>added\<close> holds the fields of the new schema.
  Every entry of \<^verbatim>\<open>added\<close> is a field that the new document declares, \<^verbatim>\<open>added\<close> is empty
  only when the document declares none, and when the declared names are strings, no two
  the same, \<^verbatim>\<open>added\<close> holds exactly the declared fields, each once.  The new schema is one
  whose field names are of a hashable type, as they are in every schema with string
  names.
\<close>

theorem compare_schemas_without_old:
  assumes "old = None \<or> (\<exists>s. old = Some s \<and> no_field_shape s)"
    and "names_ok new"
  shows "\<exists>new_fields d. fields_of repr new = Inr new_fields
           \<and> compare_schemas repr old new = Inr d
           \<and> mset (added d) = mset (map snd new_fields)
           \<and> removed d = [] \<and> changed d = []
           \<and> old_count d = 0 \<and> new_count d = length new_fields
           \<and> set (added d) \<subseteq> snd ` set (declared repr new)
           \<and> (added d = [] \<longleftrightarrow> declared repr new = [])
           \<and> (well_named (declared repr new) \<longrightarrow>
                 mset (added d) = mset (map snd (declared repr new))
                 \<and> new_count d = length (declared repr new))"
proof -
  from assms(2) obtain nf where nf: "fields_of repr new = Inr nf"
    using fields_of_returns by blast
  from assms(1) have o: "(case old of None \<Rightarrow> Inr [] | Some s \<Rightarrow> fields_of repr s) = Inr []"
    by (auto simp: no_field_shape_fields)
  have c: "compare_schemas repr old new = Inr (diff_of [] nf)"
    by (simp add: compare_schemas_def o nf)
  have a: "added (diff_of [] nf) = map snd nf"
    by (simp add: diff_of_def Let_def only_in_nothing)
  have v: "set (map snd nf) \<subseteq> snd ` set (declared repr new)"
    and e: "map snd nf = [] \<longleftrightarrow> declared repr new = []"
    using fields_of_values[OF nf] by simp_all
  have w: "nf = declared repr new" if "well_named (declared repr new)"
    using fields_of_declared[OF that, of ] nf by simp
  show ?thesis
    using nf c a v e w
    by (intro exI[of _ nf] exI[of _ "diff_of [] nf"])
       (simp add: diff_of_def Let_def only_in_nothing only_in_empty)
qed

theorem compare_schemas_without_old_witness:
  "(Some shapeless = None \<or> (\<exists>s. Some shapeless = Some s \<and> no_field_shape s))
   \<and> names_ok schema_v2
   \<and> well_named (declared render schema_v2)
   \<and> (\<exists>d. compare_schemas render (Some shapeless) schema_v2 = Inr d
         \<and> mset (added d)
             = {# [(''name'', JStr ''a''), (''type'', JStr ''float'')],
                  [(''name'', JStr ''b''), (''type'', JStr ''string''), (''nullable'', JBool True)] #}
         \<and> removed d = [] \<and> changed d = [] \<and> old_count d = 0 \<and> new_count d = 2)
   \<and> names_ok schema_legacy
   \<and> well_named (declared render schema_legacy)
   \<and> (\<exists>d. compare_schemas render None schema_legacy = Inr d
         \<and> mset (added d)
             = {# [(''type'', JStr ''integer''), (''name'', JStr ''a'')],
                  [(''name'', JStr ''b''), (''type'', JStr ''string'')] #}
         \<and> removed d = [] \<and> changed d = [] \<and> old_count d = 0 \<and> new_count d = 2)"
proof -
  have h: "Some shapeless = None \<or> (\<exists>s. Some shapeless = Some s \<and> no_field_shape s)"
    by (simp add: no_field_shape_shapeless)
  have n: "(None :: jdict option) = None \<or> (\<exists>s. (None :: jdict option) = Some s \<and> no_field_shape s)"
    by simp
  have w2: "well_named (declared render schema_v2)"
    by (simp add: declared_v2 fields_v2_def well_named_def)
  have wl: "well_named (declared render schema_legacy)"
    by (simp add: declared_legacy well_named_def)
  from compare_schemas_without_old[OF h names_ok_v2, of render] w2
  obtain d where d: "compare_schemas render (Some shapeless) schema_v2 = Inr d"
    "mset (added d) = mset (map snd (declared render schema_v2))"
    "removed d = []" "changed d = []" "old_count d = 0"
    "new_count d = length (declared render schema_v2)"
    by blast
  have first: "\<exists>d. compare_schemas render (Some shapeless) schema_v2 = Inr d
         \<and> mset (added d)
             = {# [(''name'', JStr ''a''), (''type'', JStr ''float'')],
                  [(''name'', JStr ''b''), (''type'', JStr ''string''), (''nullable'', JBool True)] #}
         \<and> removed d = [] \<and> changed d = [] \<and> old_count d = 0 \<and> new_count d = 2"
    using d by (intro exI[of _ d]) (simp add: declared_v2 fields_v2_def)
  from compare_schemas_without_old[OF n names_ok_legacy, of render] wl
  obtain g where g: "compare_schemas render None schema_legacy = Inr g"
    "mset (added g) = mset (map snd (declared render schema_legacy))"
    "removed g = []" "changed g = []" "old_count g = 0"
    "new_count g = length (declared render schema_legacy)"
    by blast
  have second: "\<exists>d. compare_schemas render None schema_legacy = Inr d
         \<and> mset (added d)
             = {# [(''type'', JStr ''integer''), (''name'', JStr ''a'')],
                  [(''name'', JStr ''b''), (''type'', JStr ''string'')] #}
         \<and> removed d = [] \<and> changed d = [] \<and> old_count d = 0 \<and> new_count d = 2"
    using g by (intro exI[of _ g]) (simp add: declared_legacy)
  from h names_ok_v2 w2 first names_ok_legacy wl second show ?thesis by (intro conjI)
qed

text \<open>
  Claim C9.  A field name present in both schemas has an entry in \<^verbatim>\<open>changed\<close> exactly
  when the types or the nullabilities of its two descriptors are unequal for Python's
  \<^verbatim>\<open>!=\<close>; the entry carries the name and the old and new pairs of type and nullability;
  every entry of \<^verbatim>\<open>changed\<close> bears a name present in both schemas.  A descriptor without
  \<^verbatim>\<open>type\<close> is compared as \<^verbatim>\<open>"string"\<close> and one without \<^verbatim>\<open>nullable\<close> as \<^verbatim>\<open>True\<close>.
\<close>

theorem changed_exactly_when_differs:
  assumes "(case old of None \<Rightarrow> Inr [] | Some s \<Rightarrow> fields_of repr s) = Inr old_fields"
    and "fields_of repr new = Inr new_fields"
    and "lookup old_fields (JStr n) = Some f"
    and "lookup new_fields (JStr n) = Some g"
  shows "\<exists>d. compare_schemas repr old new = Inr d
           \<and> ((\<exists>e \<in> set (changed d). get e ''name'' = JStr n) \<longleftrightarrow>
                (\<not> py_eq (field_type f) (field_type g)
                 \<or> \<not> py_eq (field_nullable f) (field_nullable g)))
           \<and> (\<forall>e \<in> set (changed d). get e ''name'' = JStr n \<longrightarrow>
                  e = [(''name'', JStr n), (''field'', JStr n),
                       (''old'', JDict [(''type'', field_type f), (''nullable'', field_nullable f)]),
                       (''new'', JDict [(''type'', field_type g), (''nullable'', field_nullable g)]),
                       (''old_type'', field_type f), (''new_type'', field_type g)])
           \<and> (\<forall>e \<in> set (changed d). get e ''name'' \<in> fst ` set old_fields
                  \<and> key_in (get e ''name'') new_fields)
           \<and> (\<forall>h. field_type h = (case map_of h ''type'' of None \<Rightarrow> JStr ''string'' | Some t \<Rightarrow> t))
           \<and> (\<forall>h. field_nullable h = (case map_of h ''nullable'' of None \<Rightarrow> JBool True | Some b \<Rightarrow> b))"
proof -
  have ap: "apart old_fields"
    using assms(1) by (cases old) (auto dest: fields_of_apart)
  have d: "compare_schemas repr old new = Inr (diff_of old_fields new_fields)"
    by (simp add: compare_schemas_def assms(1,2))
  let ?c = "changed_entries old_fields new_fields"
  have m: "(JStr n, f) \<in> set old_fields"
    using assms(3) by (rule lookup_str_member)
  have source: "k = JStr n \<and> f' = f \<and> g' = g"
    if "(k, f') \<in> set old_fields" "lookup new_fields k = Some g'"
      "get (change_entry k f' g') ''name'' = JStr n" for k f' g'
  proof -
    from that(3) have k: "k = JStr n" by (simp add: get_name_change_entry)
    with that(1) m ap have "f' = f" by (auto dest: apart_str_unique)
    moreover from that(2) k assms(4) have "g' = g" by simp
    ultimately show ?thesis using k by simp
  qed
  have only: "e = change_entry (JStr n) f g" if "e \<in> set ?c" "get e ''name'' = JStr n" for e
  proof -
    from changed_entries_sound[OF that(1)] obtain k f' g' where
      *: "(k, f') \<in> set old_fields" "lookup new_fields k = Some g'" "e = change_entry k f' g'"
      by blast
    with that(2) source[of k f' g'] show ?thesis by simp
  qed
  have iff: "(\<exists>e \<in> set ?c. get e ''name'' = JStr n) \<longleftrightarrow> differs f g"
  proof
    assume "\<exists>e \<in> set ?c. get e ''name'' = JStr n"
    then obtain e where e: "e \<in> set ?c" "get e ''name'' = JStr n" by blast
    from changed_entries_sound[OF e(1)] obtain k f' g' where
      *: "(k, f') \<in> set old_fields" "lookup new_fields k = Some g'" "differs f' g'"
         "e = change_entry k f' g'"
      by blast
    with e(2) source[of k f' g'] show "differs f g" by simp
  next
    assume "differs f g"
    from changed_entries_complete[OF m assms(4) this]
    have "change_entry (JStr n) f g \<in> set ?c" .
    moreover have "get (change_entry (JStr n) f g) ''name'' = JStr n"
      by (rule get_name_change_entry)
    ultimately show "\<exists>e \<in> set ?c. get e ''name'' = JStr n" by blast
  qed
  have both: "get e ''name'' \<in> fst ` set old_fields \<and> key_in (get e ''name'') new_fields"
    if "e \<in> set ?c" for e
  proof -
    from changed_entries_sound[OF that] obtain k f' g' where
      *: "(k, f') \<in> set old_fields" "lookup new_fields k = Some g'" "e = change_entry k f' g'"
      by blast
    from * show ?thesis
      by (auto simp: get_name_change_entry lookup_key_in intro: image_eqI[of _ fst "(k, f')"])
  qed
  have dflt: "field_type h = (case map_of h ''type'' of None \<Rightarrow> JStr ''string'' | Some t \<Rightarrow> t)"
    "field_nullable h = (case map_of h ''nullable'' of None \<Rightarrow> JBool True | Some b \<Rightarrow> b)" for h
    by (simp_all add: field_type_def field_nullable_def get_default_def)
  show ?thesis
    using d iff only both dflt
    by (simp add: diff_of_def Let_def differs_def change_entry_def)
qed

theorem changed_exactly_when_differs_witness:
  "fields_of render schema_v1 = Inr fields_v1
   \<and> fields_of render schema_v2 = Inr fields_v2
   \<and> lookup fields_v1 (JStr ''a'')
       = Some [(''name'', JStr ''a''), (''type'', JStr ''integer''), (''nullable'', JBool False)]
   \<and> lookup fields_v2 (JStr ''a'') = Some [(''name'', JStr ''a''), (''type'', JStr ''float'')]
   \<and> (\<exists>d. compare_schemas render (Some schema_v1) schema_v2 = Inr d
         \<and> (\<exists>e \<in> set (changed d). get e ''name'' = JStr ''a'')
         \<and> list_all (\<lambda>e. get e ''name'' = JStr ''a'' \<longrightarrow>
               e = [(''name'', JStr ''a''), (''field'', JStr ''a''),
                    (''old'', JDict [(''type'', JStr ''integer''), (''nullable'', JBool False)]),
                    (''new'', JDict [(''type'', JStr ''float''), (''nullable'', JBool True)]),
                    (''old_type'', JStr ''integer''), (''new_type'', JStr ''float'')])
             (changed d))"
proof -
  let ?f = "[(''name'', JStr ''a''), (''type'', JStr ''integer''), (''nullable'', JBool False)]"
  let ?g = "[(''name'', JStr ''a''), (''type'', JStr ''float'')]"
  have o: "(case Some schema_v1 of None \<Rightarrow> Inr [] | Some s \<Rightarrow> fields_of render s) = Inr fields_v1"
    by (simp add: fields_of_v1)
  have lf: "lookup fields_v1 (JStr ''a'') = Some ?f" by (simp add: fields_v1_def)
  have lg: "lookup fields_v2 (JStr ''a'') = Some ?g" by (simp add: fields_v2_def)
  have ty: "field_type ?f = JStr ''integer''" "field_type ?g = JStr ''float''"
    "field_nullable ?f = JBool False" "field_nullable ?g = JBool True"
    by (simp_all add: field_type_def field_nullable_def get_default_def)
  from changed_exactly_when_differs[OF o fields_of_v2 lf lg]
  have "\<exists>d. compare_schemas render (Some schema_v1) schema_v2 = Inr d
         \<and> (\<exists>e \<in> set (changed d). get e ''name'' = JStr ''a'')
         \<and> list_all (\<lambda>e. get e ''name'' = JStr ''a'' \<longrightarrow>
               e = [(''name'', JStr ''a''), (''field'', JStr ''a''),
                    (''old'', JDict [(''type'', JStr ''integer''), (''nullable'', JBool False)]),
                    (''new'', JDict [(''type'', JStr ''float''), (''nullable'', JBool True)]),
                    (''old_type'', JStr ''integer''), (''new_type'', JStr ''float'')])
             (changed d)"
    unfolding ty list_all_iff by auto
  with fields_of_v1 fields_of_v2 lf lg show ?thesis by (intro conjI)
qed

text \<open>
  Claim C10.  In the list form a field object with neither \<^verbatim>\<open>name\<close> nor \<^verbatim>\<open>path\<close> is filed
  under \<^verbatim>\<open>"unknown"\<close>, so all such objects share one entry, and the counts of the diff
  are the number of distinct names the field objects resolve to, not the length of the
  list.  Stated for a list with at least one field object whose resolved names are
  strings.
\<close>

theorem unnamed_fields_collapse:
  assumes "get s ''fields'' = JList fl"
    and "list_all is_str (resolved_names fl)"
    and "resolved_names fl \<noteq> []"
  shows "\<exists>fs. fields_of repr s = Inr fs
          \<and> length fs = card (set (resolved_names fl))
          \<and> (\<forall>old d. compare_schemas repr old s = Inr d \<longrightarrow>
                new_count d = card (set (resolved_names fl)))
          \<and> (\<forall>new d. compare_schemas repr (Some s) new = Inr d \<longrightarrow>
                old_count d = card (set (resolved_names fl)))
          \<and> (\<forall>f. map_of f ''name'' = None \<and> map_of f ''path'' = None \<longrightarrow>
                field_name True f = JStr ''unknown'')"
proof -
  from add_list_fields_str_keys[of True fl "[]"] assms(2) obtain fs where
    fs: "add_list_fields True fl [] = Inr fs"
        "set (map fst fs) = set (resolved_names fl)" "distinct (map fst fs)"
    by (auto simp: resolved_names_def)
  from fs(2) assms(3) have ne: "fs \<noteq> []" by auto
  from assms(1) have s: "s \<noteq> []" by (auto simp: get_def get_default_def)
  have e: "fields_of repr s = Inr fs"
    using assms(1) fs(1) ne s by (simp add: fields_of_def extract_fields_from_schema_def)
  have len: "length fs = card (set (resolved_names fl))"
    using fs(2,3) distinct_card[of "map fst fs"] by simp
  have n: "new_count d = card (set (resolved_names fl))"
    if "compare_schemas repr old s = Inr d" for old d
    using that e len by (auto simp: compare_schemas_def diff_of_def Let_def split: sum.splits)
  have o: "old_count d = card (set (resolved_names fl))"
    if "compare_schemas repr (Some s) new = Inr d" for new d
    using that e len by (auto simp: compare_schemas_def diff_of_def Let_def split: sum.splits)
  have u: "field_name True f = JStr ''unknown''"
    if "map_of f ''name'' = None \<and> map_of f ''path'' = None" for f
    using that by (simp add: field_name_def get_def get_default_def py_or_def)
  from e len n o u show ?thesis by blast
qed

theorem unnamed_fields_collapse_witness:
  "get schema_unnamed ''fields'' = JList unnamed_fields
   \<and> list_all is_str (resolved_names unnamed_fields)
   \<and> resolved_names unnamed_fields \<noteq> []
   \<and> length unnamed_fields = 3
   \<and> (\<exists>fs. fields_of render schema_unnamed = Inr fs \<and> length fs = 2)
   \<and> (\<exists>d. compare_schemas render None schema_unnamed = Inr d \<and> new_count d = 2)"
proof -
  have g: "get schema_unnamed ''fields'' = JList unnamed_fields"
    by (simp add: schema_unnamed_def get_def get_default_def)
  have st: "list_all is_str (resolved_names unnamed_fields)"
    by (simp add: resolved_names_unnamed)
  have ne: "resolved_names unnamed_fields \<noteq> []"
    by (simp add: resolved_names_unnamed)
  have "set (resolved_names unnamed_fields) = {JStr ''unknown'', JStr ''b''}"
    by (auto simp: resolved_names_unnamed)
  then have c: "card (set (resolved_names unnamed_fields)) = 2"
    by simp
  have three: "length unnamed_fields = 3" by (simp add: unnamed_fields_def)
  from unnamed_fields_collapse[OF g st ne, of render] obtain fs where
    fs: "fields_of render schema_unnamed = Inr fs" "length fs = 2"
    unfolding c by blast
  then have "compare_schemas render None schema_unnamed = Inr (diff_of [] fs)"
    by (simp add: compare_schemas_def)
  with fs(2) have "\<exists>d. compare_schemas render None schema_unnamed = Inr d \<and> new_count d = 2"
    by (simp add: diff_of_def Let_def)
  with g st ne three fs show ?thesis by blast
qed

section \<open>Properties of the file handlers\<close>

subsection \<open>Frames\<close>

lemma set_first_seen: "set (first_seen seen xs) = set seen \<union> set xs"
  by (induction xs arbitrary: seen) auto

lemma map_of_tabulate:
  "map_of (map (\<lambda>c. (c, g c)) cols) c = (if c \<in> set cols then Some (g c) else None)"
  by (induction cols) auto

lemma frame_of_records_columns:
  "set (columns (frame_of_records infer m rows)) = (\<Union>row \<in> set rows. fst ` set row)"
  by (auto simp: frame_of_records_def Let_def set_first_seen)

lemma frame_of_records_length: "length (records (frame_of_records infer m rows)) = length rows"
  by (simp add: frame_of_records_def Let_def)

lemma frame_of_records_names:
  "list_all (\<lambda>r. map fst r = columns (frame_of_records infer m rows))
     (records (frame_of_records infer m rows))"
  by (simp add: frame_of_records_def Let_def list_all_iff comp_def)

lemma frame_of_records_cell:
  assumes "i < length rows" and "c \<in> set (columns (frame_of_records infer m rows))"
  shows "map_of (records (frame_of_records infer m rows) ! i) c
           = Some (infer (column_of m rows c) i)"
  using assms by (simp add: frame_of_records_def Let_def map_of_tabulate)

lemma column_of_absent:
  "i < length rows \<Longrightarrow> map_of (rows ! i) c = None \<Longrightarrow> column_of m rows c ! i = m"
  by (simp add: column_of_def)

lemma frame_of_columns_names:
  "frame_of_columns infer cols = Inr df \<Longrightarrow> list_all (\<lambda>r. map fst r = columns df) (records df)"
  by (auto simp: frame_of_columns_def empty_frame_def list_all_iff comp_def case_prod_beta
      split: list.splits if_splits)

lemma is_null_na: "is_null na"
  by (simp add: is_null_def na_def)

lemma keeps_nullD:
  "keeps_null infer \<Longrightarrow> i < length cells \<Longrightarrow> is_null (cells ! i) \<Longrightarrow> is_null (infer cells i)"
  by (simp add: keeps_null_def)

lemma keeps_null_as_given: "keeps_null as_given"
  by (simp add: keeps_null_def as_given_def)

subsection \<open>Rows made from the elements of a list\<close>

lemma normalize_item_keys: "fst ` set (normalize_item dumps item) = item_names item"
proof (cases item)
  case (JDict d)
  have "fst ` set (map (\<lambda>(k, v). (Name k, if is_dict v \<or> is_list v then JStr (dumps v) else v)) d)
          = Name ` fst ` set d"
    by (induction d) auto
  with JDict show ?thesis by (simp add: normalize_item_def item_names_def)
qed (simp_all add: normalize_item_def item_names_def)

lemma list_rows:
  assumes "keeps_null infer"
  shows "\<exists>df. safe_json_to_df infer dumps (JList items) = Inr df
          \<and> list_all (\<lambda>r. map fst r = columns df) (records df)
          \<and> length (records df) = length items
          \<and> set (columns df) = (\<Union>item \<in> set items. item_names item)
          \<and> (\<forall>i < length items. \<forall>c \<in> set (columns df). c \<notin> item_names (items ! i) \<longrightarrow>
                (\<exists>v. map_of (records df ! i) c = Some v \<and> is_null v))"
proof -
  let ?rows = "map (normalize_item dumps) items"
  let ?df = "frame_of_records infer na ?rows"
  have r: "safe_json_to_df infer dumps (JList items) = Inr ?df"
    by (simp add: safe_json_to_df_def)
  have len: "length (records ?df) = length items"
    by (simp add: frame_of_records_length)
  have cols: "set (columns ?df) = (\<Union>item \<in> set items. item_names item)"
    by (simp add: frame_of_records_columns normalize_item_keys)
  have fill: "\<exists>v. map_of (records ?df ! i) c = Some v \<and> is_null v"
    if i: "i < length items" and c: "c \<in> set (columns ?df)" and a: "c \<notin> item_names (items ! i)"
    for i c
  proof -
    from a have "c \<notin> fst ` set (normalize_item dumps (items ! i))"
      by (simp add: normalize_item_keys)
    then have "map_of (normalize_item dumps (items ! i)) c = None"
      by (simp add: map_of_eq_None_iff)
    with i have "column_of na ?rows c ! i = na"
      by (simp add: column_of_absent)
    moreover have "i < length (column_of na ?rows c)"
      using i by (simp add: column_of_def)
    ultimately have "is_null (infer (column_of na ?rows c) i)"
      using keeps_nullD[OF assms, of i "column_of na ?rows c"] is_null_na by simp
    moreover from i c have "map_of (records ?df ! i) c = Some (infer (column_of na ?rows c) i)"
      by (simp add: frame_of_records_cell)
    ultimately show ?thesis by simp
  qed
  from r frame_of_records_names[of infer na ?rows] len cols fill
  show ?thesis by blast
qed

text \<open>
  Claim C5.  The claim fails at a list that holds a list: the element is not a dictionary,
  so it is wrapped as \<^verbatim>\<open>{"value": element}\<close> and handed to pandas as it is, a list in a
  cell, where the claim has every value that is a sequence or a mapping serialized.  The
  branch for dictionary elements does serialize such a value (last equation).
\<close>

theorem list_element_left_unserialized:
  "normalize_item dumps (JList [JInt 1, JInt 2]) = [(Name ''value'', JList [JInt 1, JInt 2])]
   \<and> safe_json_to_df infer dumps (JList nested_list)
       = Inr \<lparr> columns = [Name ''value''],
                records = [[(Name ''value'', infer [JList [JInt 1, JInt 2]] 0)]] \<rparr>
   \<and> safe_json_to_df as_given dumps (JList nested_list)
       = Inr \<lparr> columns = [Name ''value''],
                records = [[(Name ''value'', JList [JInt 1, JInt 2])]] \<rparr>
   \<and> normalize_item dumps (JDict [(''value'', JList [JInt 1, JInt 2])])
       = [(Name ''value'', JStr (dumps (JList [JInt 1, JInt 2])))]"
  by (simp add: safe_json_to_df_def nested_list_def frame_of_records_def normalize_item_def
      column_of_def as_given_def)

subsection \<open>Columns made from the items of a dictionary\<close>

text \<open>
  With \<open>m\<close> the length of the longest list (1 when the dictionary holds no list), a list
  is padded to \<open>m\<close> cells and a scalar makes \<open>max 1 m\<close> cells.  So when \<open>m\<close> is positive
  all columns have \<open>m\<close> cells and the frame has \<open>m\<close> rows, each list followed by
  \<^verbatim>\<open>None\<close> and each scalar in the first row only; and pandas raises exactly when \<open>m\<close> is
  0 and some value is not a list.
\<close>

lemma fold_max_ge: "x \<le> fold max xs (x::nat)" 
  by (induction xs arbitrary: x) (auto intro: order_trans[OF max.cobounded2])

lemma fold_max_mem: "y \<in> set xs \<Longrightarrow> y \<le> fold max xs (x::nat)"
proof (induction xs arbitrary: x)
  case Nil
  then show ?case by simp
next
  case (Cons a xs)
  show ?case
  proof (cases "y = a")
    case True
    have "a \<le> max a x" by simp
    also have "\<dots> \<le> fold max xs (max a x)" by (rule fold_max_ge)
    finally show ?thesis using True by simp
  next
    case False
    with Cons show ?thesis by simp
  qed
qed

lemma py_max_ge: "y \<in> set xs \<Longrightarrow> y \<le> py_max xs d"
  by (cases xs) (auto simp: fold_max_ge fold_max_mem)

lemma py_max_Max: "xs \<noteq> [] \<Longrightarrow> py_max xs d = Max (set xs)"
  by (cases xs) (simp_all add: Max.set_eq_fold[symmetric])

lemma list_lengths_mem: "(k, JList vs) \<in> set d \<Longrightarrow> length vs \<in> set (list_lengths d)"
  by (induction d rule: list_lengths.induct) auto

lemma pad_column_length:
  assumes "(k, v) \<in> set d" and "m = py_max (list_lengths d) 1"
  shows "length (snd (pad_column m (k, v))) = (if is_list v then m else max 1 m)"
proof (cases v)
  case (JList vs)
  with assms have "length vs \<le> m" by (auto intro: py_max_ge list_lengths_mem)
  with JList show ?thesis by (simp add: pad_column_def nones_def)
qed (auto simp: pad_column_def nones_def)

lemma pad_column_label: "fst (pad_column m (k, v)) = Name k"
  by (cases v) (simp_all add: pad_column_def)

lemma pad_column_cell:
  assumes "(k, v) \<in> set d" and "m = py_max (list_lengths d) 1" and "i < m"
  shows "snd (pad_column m (k, v)) ! i
           = (case v of JList vs \<Rightarrow> if i < length vs then vs ! i else JNull
              | _ \<Rightarrow> if i = 0 then v else JNull)"
proof (cases v)
  case (JList vs)
  with assms have "length vs \<le> m" by (auto intro: py_max_ge list_lengths_mem)
  with JList assms(3) show ?thesis by (simp add: pad_column_def nones_def nth_append)
qed (use assms(3) in \<open>auto simp: pad_column_def nones_def nth_Cons split: nat.splits\<close>)

lemma pad_column_absent:
  assumes "(k, v) \<in> set d" and "m = py_max (list_lengths d) 1" and "i < m"
    and "case v of JList vs \<Rightarrow> length vs \<le> i | _ \<Rightarrow> 0 < i"
  shows "snd (pad_column m (k, v)) ! i = JNull"
  using pad_column_cell[OF assms(1-3)] assms(4) by (cases v) auto

lemma dict_columns_padded:
  assumes "m = py_max (list_lengths d) 1"
    and "0 < m \<or> list_all (\<lambda>kv. is_list (snd kv)) d"
  shows "\<exists>df. safe_json_to_df infer dumps (JDict d) = Inr df
          \<and> columns df = map (\<lambda>kv. Name (fst kv)) d
          \<and> (d \<noteq> [] \<longrightarrow> length (records df) = m)
          \<and> (\<forall>i < m. \<forall>k v. map_of d k = Some v \<longrightarrow>
                map_of (records df ! i) (Name k) = Some (infer (snd (pad_column m (k, v))) i))"
proof (cases d)
  case Nil
  then show ?thesis by (simp add: safe_json_to_df_def frame_of_columns_def empty_frame_def)
next
  case (Cons kv rest)
  let ?cols = "map (pad_column m) d"
  have len: "length (snd (pad_column m (k, v))) = m" if "(k, v) \<in> set d" for k v
  proof -
    from assms(2) that have "0 < m \<or> is_list v" by (auto simp: list_all_iff)
    with pad_column_length[OF that assms(1)] show ?thesis by (auto simp: max_def)
  qed
  have all: "list_all (\<lambda>(k', vs'). length vs' = m) ?cols"
    using len by (fastforce simp: list_all_iff)
  obtain k0 v0 where kv: "kv = (k0, v0)" by (cases kv)
  obtain l0 c0 where p0: "pad_column m (k0, v0) = (l0, c0)" by (cases "pad_column m (k0, v0)")
  have c0: "length c0 = m" using len[of k0 v0] p0 Cons kv by simp
  let ?df = "\<lparr> columns = map fst ?cols,
                records = map (\<lambda>i. map (\<lambda>(k', vs'). (k', infer vs' i)) ?cols) [0..<m] \<rparr> :: frame"
  have r: "safe_json_to_df infer dumps (JDict d) = Inr ?df"
    using all c0 p0 Cons kv assms(1)
    by (simp add: safe_json_to_df_def Let_def frame_of_columns_def)
  have lab: "fst (pad_column m x) = Name (fst x)" for x
    using pad_column_label[of m "fst x" "snd x"] by simp
  have cols: "columns ?df = map (\<lambda>kv. Name (fst kv)) d"
    by (simp add: lab)
  have cell: "map_of (records ?df ! i) (Name k) = Some (infer (snd (pad_column m (k, v))) i)"
    if i: "i < m" and kv: "map_of d k = Some v" for i k v
  proof -
    have row: "records ?df ! i = map (\<lambda>kv. (Name (fst kv), infer (snd (pad_column m kv)) i)) d"
      using i by (simp add: comp_def case_prod_beta lab)
    have "map_of (map (\<lambda>kv. (Name (fst kv), infer (snd (pad_column m kv)) i)) e) (Name k)
            = map_option (\<lambda>v. infer (snd (pad_column m (k, v))) i) (map_of e k)" for e
      by (induction e) auto
    with row kv show ?thesis by simp
  qed
  show ?thesis
    using r cols cell by (intro exI[of _ ?df]) (simp add: Cons)
qed

lemma frame_of_columns_raises:
  "(frame_of_columns infer cols = Inl ValueError)
     = (\<exists>c1 \<in> set cols. \<exists>c2 \<in> set cols. length (snd c1) \<noteq> length (snd c2))"
proof (cases cols)
  case Nil
  then show ?thesis by (simp add: frame_of_columns_def)
next
  case (Cons c rest)
  obtain k vs where c: "c = (k, vs)" by (cases c)
  have d: "(frame_of_columns infer cols = Inl ValueError)
             = (\<not> list_all (\<lambda>(k', vs'). length vs' = length vs) rest)"
    by (simp add: frame_of_columns_def Cons c)
  have "(\<not> list_all (\<lambda>(k', vs'). length vs' = length vs) rest)
          = (\<exists>c1 \<in> set cols. \<exists>c2 \<in> set cols. length (snd c1) \<noteq> length (snd c2))"
  proof
    assume "\<not> list_all (\<lambda>(k', vs'). length vs' = length vs) rest"
    then obtain c2 where "c2 \<in> set rest" "length (snd c2) \<noteq> length vs"
      by (auto simp: list_all_iff)
    then show "\<exists>c1 \<in> set cols. \<exists>c2 \<in> set cols. length (snd c1) \<noteq> length (snd c2)"
      unfolding Cons c by (intro bexI[of _ "(k, vs)"] bexI[of _ c2]) auto
  next
    assume "\<exists>c1 \<in> set cols. \<exists>c2 \<in> set cols. length (snd c1) \<noteq> length (snd c2)"
    then obtain c1 c2 where *: "c1 \<in> set cols" "c2 \<in> set cols" "length (snd c1) \<noteq> length (snd c2)"
      by blast
    show "\<not> list_all (\<lambda>(k', vs'). length vs' = length vs) rest"
    proof
      assume "list_all (\<lambda>(k', vs'). length vs' = length vs) rest"
      then have "length (snd x) = length vs" if "x \<in> set cols" for x
        using that unfolding Cons c by (auto simp: list_all_iff)
      with * show False by simp
    qed
  qed
  with d show ?thesis by (rule trans)
qed

lemma list_lengths_exists:
  "list_lengths d \<noteq> [] \<Longrightarrow> \<exists>k vs. (k, JList vs) \<in> set d"
  by (induction d rule: list_lengths.induct) auto

lemma dict_raises_iff:
  "(safe_json_to_df infer dumps (JDict d) = Inl ValueError)
     = (py_max (list_lengths d) 1 = 0 \<and> \<not> list_all (\<lambda>kv. is_list (snd kv)) d)"
proof (cases "0 < py_max (list_lengths d) 1 \<or> list_all (\<lambda>kv. is_list (snd kv)) d")
  case True
  from dict_columns_padded[OF refl True, of infer dumps] True show ?thesis by auto
next
  case False
  let ?m = "py_max (list_lengths d) 1"
  from False have m: "?m = 0" and ns: "\<not> list_all (\<lambda>kv. is_list (snd kv)) d" by simp_all
  have len: "length (snd (pad_column ?m kv)) = (if is_list (snd kv) then ?m else max 1 ?m)"
    if "kv \<in> set d" for kv
    using pad_column_length[of "fst kv" "snd kv" d ?m] that by simp
  from m have "list_lengths d \<noteq> []" by (cases "list_lengths d") auto
  then obtain k vs where l: "(k, JList vs) \<in> set d"
    using list_lengths_exists by blast
  have l0: "length (snd (pad_column ?m (k, JList vs))) = 0"
    using len[OF l] m by simp
  from ns obtain kv where kv: "kv \<in> set d" "\<not> is_list (snd kv)"
    by (auto simp: list_all_iff)
  then have "length (snd (pad_column ?m kv)) = 1"
    using len[OF kv(1)] m by simp
  with l0 l kv(1) have "\<exists>a \<in> set d. \<exists>b \<in> set d.
             length (snd (pad_column ?m a)) \<noteq> length (snd (pad_column ?m b))"
    by (metis zero_neq_one)
  then have "safe_json_to_df infer dumps (JDict d) = Inl ValueError"
    by (simp add: safe_json_to_df_def Let_def frame_of_columns_raises)
  with m ns show ?thesis by simp
qed

lemma safe_json_to_df_raises_iff:
  "(safe_json_to_df infer dumps data = Inl e)
     = (e = ValueError \<and>
        (\<exists>d. data = JDict d \<and> py_max (list_lengths d) 1 = 0 \<and> \<not> list_all (\<lambda>kv. is_list (snd kv)) d))"
proof (cases data)
  case (JDict d)
  have "e = ValueError" if "safe_json_to_df infer dumps (JDict d) = Inl e"
    using that by (auto simp: safe_json_to_df_def Let_def frame_of_columns_def
        split: list.splits if_splits)
  with JDict dict_raises_iff[of infer dumps d] show ?thesis by auto
qed (simp_all add: safe_json_to_df_def)

text \<open>
  Claim C4.  The claim fails at a dictionary that holds an empty list beside a scalar:
  the longest list has length 0, the scalar still makes a column of one cell, and pandas
  refuses columns of different lengths.  The call raises \<^verbatim>\<open>ValueError\<close> where the claim
  promises a row set.
\<close>

theorem empty_list_beside_scalar_raises:
  "safe_json_to_df infer dumps (JDict [(''a'', JList []), (''b'', JStr ''const'')]) = Inl ValueError"
  by (simp add: safe_json_to_df_def frame_of_columns_def pad_column_def nones_def)

text \<open>
  The scenario of the specification, where the longest list has three elements: the
  columns handed to pandas, and the frame.
\<close>

lemma list_beside_scalar_columns:
  "map (pad_column (py_max (list_lengths list_and_scalar) 1)) list_and_scalar
     = [(Name ''a'', [JInt 1, JInt 2, JInt 3]), (Name ''b'', [JStr ''const'', JNull, JNull])]"
  by (simp add: list_and_scalar_def pad_column_def nones_def numeral_2_eq_2)

lemma list_beside_scalar:
  "safe_json_to_df infer dumps (JDict list_and_scalar)
     = Inr \<lparr> columns = [Name ''a'', Name ''b''],
              records =
                map (\<lambda>i. [(Name ''a'', infer [JInt 1, JInt 2, JInt 3] i),
                           (Name ''b'', infer [JStr ''const'', JNull, JNull] i)]) [0, 1, 2] \<rparr>"
  by (simp add: safe_json_to_df_def Let_def frame_of_columns_def list_and_scalar_def pad_column_def
      nones_def numeral_2_eq_2 upt_rec)

lemma uneven_rows_frame:
  "safe_json_to_df infer dumps (JList uneven_rows)
     = Inr \<lparr> columns = [Name ''a'', Name ''b''],
              records =
                map (\<lambda>i. [(Name ''a'', infer [JInt 1, JInt 2] i),
                           (Name ''b'', infer [JStr ''x'', na] i)]) [0, 1] \<rparr>"
  by (simp add: safe_json_to_df_def uneven_rows_def frame_of_records_def normalize_item_def
      column_of_def upt_rec)

subsection \<open>The invariant of the rows\<close>

text \<open>
  Claim C6.  For every input, \<^verbatim>\<open>safe_json_to_df\<close> either returns a frame or raises
  \<^verbatim>\<open>ValueError\<close>, and it raises exactly for a dictionary whose longest list is empty and
  which holds a value that is not a list (the defect of C4).  In every frame it returns,
  each row has the column labels of the frame as its field names, in the same order.
  For a list the frame has one row per element and its columns are the field names of
  the elements; a cell whose label is not a field name of the element of its row is
  null.  For a dictionary the columns are its keys and the rows are as many as the
  longest list is long; a cell beyond the end of its list, or beyond the first row for
  a scalar, is null.  A scalar makes one row with one column.  Null cells are taken to
  stay null whatever dtype pandas chooses for the column.
\<close>

theorem rows_share_field_names:
  assumes "keeps_null infer"
  shows "(case safe_json_to_df infer dumps data of
      Inl e \<Rightarrow>
        e = ValueError
        \<and> (\<exists>d. data = JDict d \<and> py_max (list_lengths d) 1 = 0
                \<and> \<not> list_all (\<lambda>kv. is_list (snd kv)) d)
    | Inr df \<Rightarrow>
        list_all (\<lambda>r. map fst r = columns df) (records df)
        \<and> (\<forall>d. data = JDict d \<longrightarrow>
              \<not> (py_max (list_lengths d) 1 = 0 \<and> \<not> list_all (\<lambda>kv. is_list (snd kv)) d))
        \<and> (case data of
             JList items \<Rightarrow>
               length (records df) = length items
               \<and> set (columns df) = (\<Union>item \<in> set items. item_names item)
               \<and> (\<forall>i < length items. \<forall>c \<in> set (columns df). c \<notin> item_names (items ! i) \<longrightarrow>
                     (\<exists>v. map_of (records df ! i) c = Some v \<and> is_null v))
           | JDict d \<Rightarrow>
               columns df = map (\<lambda>kv. Name (fst kv)) d
               \<and> (d \<noteq> [] \<longrightarrow> length (records df) = py_max (list_lengths d) 1)
               \<and> (\<forall>i < py_max (list_lengths d) 1. \<forall>k v.
                     map_of d k = Some v \<and> (case v of JList vs \<Rightarrow> length vs \<le> i | _ \<Rightarrow> 0 < i) \<longrightarrow>
                     (\<exists>c. map_of (records df ! i) (Name k) = Some c \<and> is_null c))
           | _ \<Rightarrow> columns df = [Pos 0] \<and> length (records df) = 1))"
proof (cases data)
  case (JList items)
  from list_rows[OF assms, of dumps items] JList show ?thesis by auto
next
  case (JDict d)
  let ?m = "py_max (list_lengths d) 1"
  show ?thesis
  proof (cases "?m = 0 \<and> \<not> list_all (\<lambda>kv. is_list (snd kv)) d")
    case True
    then have "safe_json_to_df infer dumps (JDict d) = Inl ValueError"
      by (simp add: dict_raises_iff)
    with JDict True show ?thesis by simp
  next
    case False
    then have ok: "0 < ?m \<or> list_all (\<lambda>kv. is_list (snd kv)) d" by auto
    from dict_columns_padded[OF refl ok, of infer dumps] obtain df where
      df: "safe_json_to_df infer dumps (JDict d) = Inr df"
          "columns df = map (\<lambda>kv. Name (fst kv)) d"
          "d \<noteq> [] \<longrightarrow> length (records df) = ?m"
          "\<forall>i < ?m. \<forall>k v. map_of d k = Some v \<longrightarrow>
                map_of (records df ! i) (Name k) = Some (infer (snd (pad_column ?m (k, v))) i)"
      by blast
    have names: "list_all (\<lambda>r. map fst r = columns df) (records df)"
      using df(1) by (auto simp: safe_json_to_df_def Let_def dest: frame_of_columns_names)
    have fill: "\<exists>c. map_of (records df ! i) (Name k) = Some c \<and> is_null c"
      if i: "i < ?m" and kv: "map_of d k = Some v"
        and a: "case v of JList vs \<Rightarrow> length vs \<le> i | _ \<Rightarrow> 0 < i" for i k v
    proof -
      from kv have mem: "(k, v) \<in> set d" by (rule map_of_SomeD)
      have "snd (pad_column ?m (k, v)) ! i = JNull"
        using pad_column_absent[OF mem refl i a] .
      moreover have "i < length (snd (pad_column ?m (k, v)))"
      proof -
        from ok mem have "0 < ?m \<or> is_list v" by (auto simp: list_all_iff)
        with pad_column_length[OF mem refl] i show ?thesis by (auto simp: max_def)
      qed
      ultimately have "is_null (infer (snd (pad_column ?m (k, v))) i)"
        using keeps_nullD[OF assms, of i "snd (pad_column ?m (k, v))"] by (simp add: is_null_def)
      with df(4) i kv show ?thesis by simp
    qed
    from df names fill False JDict show ?thesis by simp
  qed
qed (simp_all add: safe_json_to_df_def)

theorem rows_share_field_names_witness:
  "keeps_null as_given
   \<and> (\<exists>df. safe_json_to_df as_given render (JList uneven_rows) = Inr df
         \<and> columns df = [Name ''a'', Name ''b'']
         \<and> length (records df) = 2
         \<and> list_all (\<lambda>r. map fst r = [Name ''a'', Name ''b'']) (records df)
         \<and> (\<exists>v. map_of (records df ! 1) (Name ''b'') = Some v \<and> is_null v))
   \<and> (\<exists>df. safe_json_to_df as_given render (JDict list_and_scalar) = Inr df
         \<and> columns df = [Name ''a'', Name ''b'']
         \<and> length (records df) = 3
         \<and> list_all (\<lambda>r. map fst r = [Name ''a'', Name ''b'']) (records df)
         \<and> (\<exists>c. map_of (records df ! 1) (Name ''b'') = Some c \<and> is_null c)
         \<and> (\<exists>c. map_of (records df ! 2) (Name ''b'') = Some c \<and> is_null c))
   \<and> safe_json_to_df as_given render (JDict [(''a'', JList []), (''b'', JStr ''const'')])
       = Inl ValueError"
proof -
  note k = keeps_null_as_given
  let ?u = "\<lparr> columns = [Name ''a'', Name ''b''],
              records =
                map (\<lambda>i. [(Name ''a'', as_given [JInt 1, JInt 2] i),
                           (Name ''b'', as_given [JStr ''x'', na] i)]) [0, 1] \<rparr> :: frame"
  let ?s = "\<lparr> columns = [Name ''a'', Name ''b''],
              records =
                map (\<lambda>i. [(Name ''a'', as_given [JInt 1, JInt 2, JInt 3] i),
                           (Name ''b'', as_given [JStr ''const'', JNull, JNull] i)]) [0, 1, 2] \<rparr> :: frame"
  have eu: "safe_json_to_df as_given render (JList uneven_rows) = Inr ?u"
    by (rule uneven_rows_frame)
  have es: "safe_json_to_df as_given render (JDict list_and_scalar) = Inr ?s"
    by (rule list_beside_scalar)
  have m: "py_max (list_lengths list_and_scalar) 1 = 3"
    by (simp add: list_and_scalar_def)
  note tu = rows_share_field_names[OF k, where dumps = render and data = "JList uneven_rows",
      unfolded eu sum.case json.case]
  note ts = rows_share_field_names[OF k, where dumps = render and data = "JDict list_and_scalar",
      unfolded es sum.case json.case m]
  from tu have u: "list_all (\<lambda>r. map fst r = columns ?u) (records ?u)"
    by (rule conjunct1)
  from tu have uf: "\<forall>i < length uneven_rows. \<forall>c \<in> set (columns ?u).
                     c \<notin> item_names (uneven_rows ! i) \<longrightarrow>
                     (\<exists>v. map_of (records ?u ! i) c = Some v \<and> is_null v)"
    by blast
  have "1 < length uneven_rows" "Name ''b'' \<in> set (columns ?u)"
    "Name ''b'' \<notin> item_names (uneven_rows ! 1)"
    by (simp_all add: uneven_rows_def item_names_def)
  with uf have ub: "\<exists>v. map_of (records ?u ! 1) (Name ''b'') = Some v \<and> is_null v"
    by blast
  from ts have s: "list_all (\<lambda>r. map fst r = columns ?s) (records ?s)"
    by (rule conjunct1)
  from ts have sf: "\<forall>i < 3. \<forall>k v.
               map_of list_and_scalar k = Some v \<and> (case v of JList vs \<Rightarrow> length vs \<le> i | _ \<Rightarrow> 0 < i) \<longrightarrow>
               (\<exists>c. map_of (records ?s ! i) (Name k) = Some c \<and> is_null c)"
    by blast
  have b: "map_of list_and_scalar ''b'' = Some (JStr ''const'')"
    by (simp add: list_and_scalar_def)
  have beyond: "case JStr ''const'' of JList vs \<Rightarrow> length vs \<le> i | _ \<Rightarrow> 0 < i" if "0 < i" for i :: nat
    using that by simp
  have b1: "map_of list_and_scalar ''b'' = Some (JStr ''const'')
            \<and> (case JStr ''const'' of JList vs \<Rightarrow> length vs \<le> 1 | _ \<Rightarrow> 0 < (1::nat))"
    using b beyond[of 1] by simp
  have b2: "map_of list_and_scalar ''b'' = Some (JStr ''const'')
            \<and> (case JStr ''const'' of JList vs \<Rightarrow> length vs \<le> 2 | _ \<Rightarrow> 0 < (2::nat))"
    using b beyond[of 2] by simp
  have s1: "\<exists>c. map_of (records ?s ! 1) (Name ''b'') = Some c \<and> is_null c"
    using sf[rule_format, of 1 "''b''" "JStr ''const''"] b1 by simp
  have s2: "\<exists>c. map_of (records ?s ! 2) (Name ''b'') = Some c \<and> is_null c"
    using sf[rule_format, of 2 "''b''" "JStr ''const''"] b2 by simp
  have first: "\<exists>df. safe_json_to_df as_given render (JList uneven_rows) = Inr df
         \<and> columns df = [Name ''a'', Name ''b'']
         \<and> length (records df) = 2
         \<and> list_all (\<lambda>r. map fst r = [Name ''a'', Name ''b'']) (records df)
         \<and> (\<exists>v. map_of (records df ! 1) (Name ''b'') = Some v \<and> is_null v)"
    using eu u ub by (intro exI[of _ ?u]) simp
  have second: "\<exists>df. safe_json_to_df as_given render (JDict list_and_scalar) = Inr df
         \<and> columns df = [Name ''a'', Name ''b'']
         \<and> length (records df) = 3
         \<and> list_all (\<lambda>r. map fst r = [Name ''a'', Name ''b'']) (records df)
         \<and> (\<exists>c. map_of (records df ! 1) (Name ''b'') = Some c \<and> is_null c)
         \<and> (\<exists>c. map_of (records df ! 2) (Name ''b'') = Some c \<and> is_null c)"
    using es s s1 s2 by (intro exI[of _ ?s]) simp
  from rows_share_field_names[OF k, where dumps = render
      and data = "JDict [(''a'', JList []), (''b'', JStr ''const'')]"]
  have third: "safe_json_to_df as_given render (JDict [(''a'', JList []), (''b'', JStr ''const'')])
       = Inl ValueError"
    by (cases "safe_json_to_df as_given render (JDict [(''a'', JList []), (''b'', JStr ''const'')])")
       auto
  from k first second third show ?thesis by (intro conjI)
qed

subsection \<open>The reader registry\<close>

text \<open>
  Claim C2.  As stated the claim fails: the entry for \<^verbatim>\<open>csv\<close> is \<^verbatim>\<open>pd.read_csv\<close> itself, and
  where pandas raises, the reader raises.
\<close>

theorem csv_reader_raises:
  "call_reader no_files as_given render ''csv'' ''missing.csv'' = Some (Inl OSError)"
  by (simp add: call_reader_def READERS_def no_files_def)

text \<open>
  Claim C2, amended.  The readers registered for \<^verbatim>\<open>json\<close>, \<^verbatim>\<open>html\<close> and \<^verbatim>\<open>xml\<close> return a
  frame for every path and never raise: the empty frame when the file cannot be decoded
  or \<^verbatim>\<open>safe_json_to_df\<close> raises, when none of the three attempts to read HTML yields a
  table, or when reading XML raises.  The readers registered for \<^verbatim>\<open>csv\<close>, \<^verbatim>\<open>tsv\<close>, \<^verbatim>\<open>xlsx\<close>,
  \<^verbatim>\<open>xls\<close> and \<^verbatim>\<open>parquet\<close> are the pandas readers, whose result, an exception included, is
  the reader's result.
\<close>

theorem safe_readers_never_raise:
  "(\<forall>ext \<in> {''json'', ''html'', ''xml''}. \<exists>df. call_reader env infer dumps ext path = Some (Inr df))
   \<and> (\<forall>e. json_load env path = Inl e \<longrightarrow>
          call_reader env infer dumps ''json'' path = Some (Inr empty_frame))
   \<and> (\<forall>data e. json_load env path = Inr data \<and> safe_json_to_df infer dumps data = Inl e \<longrightarrow>
          call_reader env infer dumps ''json'' path = Some (Inr empty_frame))
   \<and> (\<forall>e. read_xml env path = Inl e \<longrightarrow>
          call_reader env infer dumps ''xml'' path = Some (Inr empty_frame))
   \<and> (first_table (read_html env path (Some (''bs4'', ''lxml''))) = None
        \<and> first_table (read_html env path (Some (''bs4'', ''html5lib''))) = None
        \<and> first_table (read_html env path None) = None
        \<longrightarrow> call_reader env infer dumps ''html'' path = Some (Inr empty_frame))
   \<and> call_reader env infer dumps ''csv'' path = Some (read_csv env path None)
   \<and> call_reader env infer dumps ''tsv'' path = Some (read_csv env path (Some [CHR 0x09]))
   \<and> call_reader env infer dumps ''xlsx'' path = Some (read_excel env path ''openpyxl'' False)
   \<and> call_reader env infer dumps ''xls'' path = Some (read_excel env path ''xlrd'' True)
   \<and> call_reader env infer dumps ''parquet'' path = Some (read_parquet env path)"
  by (simp add: call_reader_def READERS_def read_json_def read_xml_safely_def
      read_html_safely_def)

theorem safe_readers_never_raise_witness:
  "json_load no_files ''missing'' = Inl OSError
   \<and> call_reader no_files as_given render ''json'' ''missing'' = Some (Inr empty_frame)
   \<and> read_xml no_files ''missing'' = Inl OSError
   \<and> call_reader no_files as_given render ''xml'' ''missing'' = Some (Inr empty_frame)
   \<and> first_table (read_html no_files ''missing'' (Some (''bs4'', ''lxml''))) = None
   \<and> first_table (read_html no_files ''missing'' (Some (''bs4'', ''html5lib''))) = None
   \<and> first_table (read_html no_files ''missing'' None) = None
   \<and> call_reader no_files as_given render ''html'' ''missing'' = Some (Inr empty_frame)"
proof -
  have j: "json_load no_files ''missing'' = Inl OSError"
    and x: "read_xml no_files ''missing'' = Inl OSError"
    and h: "first_table (read_html no_files ''missing'' (Some (''bs4'', ''lxml''))) = None"
      "first_table (read_html no_files ''missing'' (Some (''bs4'', ''html5lib''))) = None"
      "first_table (read_html no_files ''missing'' None) = None"
    by (simp_all add: no_files_def)
  note t = safe_readers_never_raise[of no_files as_given render "''missing''"]
  from t j have cj: "call_reader no_files as_given render ''json'' ''missing'' = Some (Inr empty_frame)"
    by blast
  from t x have cx: "call_reader no_files as_given render ''xml'' ''missing'' = Some (Inr empty_frame)"
    by blast
  from t h have ch: "call_reader no_files as_given render ''html'' ''missing'' = Some (Inr empty_frame)"
    by blast
  from j cj x cx h ch show ?thesis by (intro conjI)
qed

section \<open>Properties of the sanitizer\<close>

text \<open>
  What the function does achieve: its result holds no numpy wrapper, array or tuple, and
  a tree that holds none is returned as it is.
\<close>

lemma native_sanitize: "native (sanitize_for_mongo v)"
  by (induction v rule: sanitize_for_mongo.induct) (auto simp: list_all_iff)

lemma sanitize_native: "native v \<Longrightarrow> sanitize_for_mongo v = v"
  by (induction v rule: sanitize_for_mongo.induct) (auto simp: list_all_iff map_idI)

lemma sanitize_the_nan_object:
  "sanitize_for_mongo NpNan = PNone
   \<and> sanitize_for_mongo (PList [PInt 1, NpNan]) = PList [PInt 1, PNone]
   \<and> sanitize_for_mongo (PDict [(PStr ''x'', NpNan)]) = PDict [(PStr ''x'', PNone)]"
  by simp

text \<open>
  Claim C3.  The claim fails for not-a-number: the test is \<^verbatim>\<open>obj is np.nan\<close>, an identity
  with one object.  A numpy float that is not a number comes out as the Python float
  not-a-number (the test for \<^verbatim>\<open>np.floating\<close> comes first), the not-a-number elements of a
  float array come out of \<^verbatim>\<open>tolist()\<close> as fresh floats and stay, and so does any Python
  float that is not a number but is not that object.  None of them becomes \<^verbatim>\<open>None\<close>.
\<close>

theorem nan_values_survive_sanitizing:
  "sanitize_for_mongo (NpFloating FNaN) = PFloat FNaN
   \<and> sanitize_for_mongo (NpArray [PFloat (FFin 1), PFloat FNaN]) = PList [PFloat (FFin 1), PFloat FNaN]
   \<and> sanitize_for_mongo (PDict [(PStr ''mean'', PFloat FNaN)]) = PDict [(PStr ''mean'', PFloat FNaN)]
   \<and> is_nan (PFloat FNaN) \<and> PFloat FNaN \<noteq> PNone"
  by simp

section \<open>Properties of the pipeline\<close>

lemma storage_down_run:
  "run_dynamic_etl_bytes storage_down ''a'' ''data.csv'' None
     = Inr (PDict
         [(PStr ''structured_data'', PList [PDict [(PStr ''a'', PInt 1)]]),
          (PStr ''schema'', PDict candidate),
          (PStr ''row_count'', PInt 1),
          (PStr ''cleaning_stats'',
             PDict [(PStr ''nullsRemoved'', PInt 0), (PStr ''typesCast'', PInt 0),
                    (PStr ''formatsFixed'', PInt 0), (PStr ''duplicatesDropped'', PInt 0),
                    (PStr ''rows_before'', PInt 1), (PStr ''rows_after'', PInt 1),
                    (PStr ''nulls_before'', PInt 0), (PStr ''nulls_after'', PInt 0)]),
          (PStr ''parsed_fragments'', PList []),
          (PStr ''source_id'', PStr ''data''),
          (PStr ''schema_version'', PInt 1)])"
  by (simp add: run_dynamic_etl_bytes_def storage_down_def one_cell_def candidate_def track_def
      frame_empty_def underscored_def pget_def)

text \<open>
  Claim C1.  As stated the claim fails: with the storage of the tracker unavailable the
  call returns an ordinary result, with nothing in it that tells of the failure, and the
  result carries the version number 1, which no tracker assigned.
\<close>

theorem tracking_failure_counterexample:
  "add_schema storage_down ''data'' candidate = Inl OSError
   \<and> run_dynamic_etl_bytes storage_down ''a'' ''data.csv'' None
     = Inr (PDict
         [(PStr ''structured_data'', PList [PDict [(PStr ''a'', PInt 1)]]),
          (PStr ''schema'', PDict candidate),
          (PStr ''row_count'', PInt 1),
          (PStr ''cleaning_stats'',
             PDict [(PStr ''nullsRemoved'', PInt 0), (PStr ''typesCast'', PInt 0),
                    (PStr ''formatsFixed'', PInt 0), (PStr ''duplicatesDropped'', PInt 0),
                    (PStr ''rows_before'', PInt 1), (PStr ''rows_after'', PInt 1),
                    (PStr ''nulls_before'', PInt 0), (PStr ''nulls_after'', PInt 0)]),
          (PStr ''parsed_fragments'', PList []),
          (PStr ''source_id'', PStr ''data''),
          (PStr ''schema_version'', PInt 1)])"
  by (simp add: storage_down_run) (simp add: storage_down_def)

lemma failing_tracker_same_as_idle:
  assumes "add_schema c = (\<lambda>source_id schema. Inl e)"
  shows "run_dynamic_etl_bytes c file_bytes filename source_id
           = run_dynamic_etl_bytes (c\<lparr>add_schema := (\<lambda>source_id schema. Inr schema)\<rparr>)
               file_bytes filename source_id"
proof -
  let ?c = "c\<lparr>add_schema := (\<lambda>source_id schema. Inr schema)\<rparr>"
  have t: "track c sid s = track ?c sid s" for sid s
    by (simp add: track_def assms)
  have r: "sanitize_record c r = sanitize_record ?c r" for r
    by (induction r) (auto split: sum.splits)
  have rs: "sanitize_records c rs = sanitize_records ?c rs" for rs
    by (induction rs) (auto simp: r split: sum.splits)
  show ?thesis
    unfolding run_dynamic_etl_bytes_def
    by (simp add: t rs Let_def cong: sum.case_cong option.case_cong prod.case_cong)
qed

text \<open>
  Claim C1, amended.  When the tracker raises, the exception is caught and the call goes
  on with the generated schema: it returns what it would return had the tracker handed the
  candidate back unchanged, so the caller cannot tell the failure; the schema in the
  result is the generated one, sanitized, and \<^verbatim>\<open>schema_version\<close> is the \<^verbatim>\<open>version\<close> of the
  generated schema, or 1 when it has none.
\<close>

theorem tracking_failure_goes_unreported:
  assumes "add_schema c = (\<lambda>source_id schema. Inl e)"
  shows "run_dynamic_etl_bytes c file_bytes filename source_id
           = run_dynamic_etl_bytes (c\<lparr>add_schema := (\<lambda>source_id schema. Inr schema)\<rparr>)
               file_bytes filename source_id
   \<and> (\<forall>df fragments transformed_df transform_stats generated rows.
         extract_data c file_bytes (snd (splitext c filename)) = Inr (Some df, fragments)
         \<and> \<not> frame_empty df
         \<and> run_transform_pipeline c df = Inr (transformed_df, transform_stats)
         \<and> generate_schema c transformed_df
              (case source_id of None \<Rightarrow> underscored (fst (splitext c filename)) | Some given \<Rightarrow> given)
              fragments = Inr generated
         \<and> sanitize_records c (records transformed_df) = Inr rows
        \<longrightarrow> (\<exists>result. run_dynamic_etl_bytes c file_bytes filename source_id = Inr (PDict result)
              \<and> map_of result (PStr ''schema'') = Some (sanitize_for_mongo (PDict generated))
              \<and> map_of result (PStr ''schema_version'') = Some (pget generated ''version'' (PInt 1))))"
proof (intro conjI allI impI)
  show "run_dynamic_etl_bytes c file_bytes filename source_id
           = run_dynamic_etl_bytes (c\<lparr>add_schema := (\<lambda>source_id schema. Inr schema)\<rparr>)
               file_bytes filename source_id"
    using assms by (rule failing_tracker_same_as_idle)
next
  fix df fragments transformed_df transform_stats generated rows
  assume "extract_data c file_bytes (snd (splitext c filename)) = Inr (Some df, fragments)
         \<and> \<not> frame_empty df
         \<and> run_transform_pipeline c df = Inr (transformed_df, transform_stats)
         \<and> generate_schema c transformed_df
              (case source_id of None \<Rightarrow> underscored (fst (splitext c filename)) | Some given \<Rightarrow> given)
              fragments = Inr generated
         \<and> sanitize_records c (records transformed_df) = Inr rows"
  moreover have "track c sid generated = generated" for sid
    by (simp add: track_def assms)
  ultimately show "\<exists>result. run_dynamic_etl_bytes c file_bytes filename source_id = Inr (PDict result)
              \<and> map_of result (PStr ''schema'') = Some (sanitize_for_mongo (PDict generated))
              \<and> map_of result (PStr ''schema_version'') = Some (pget generated ''version'' (PInt 1))"
    by (simp add: run_dynamic_etl_bytes_def Let_def)
qed

theorem tracking_failure_goes_unreported_witness:
  "add_schema storage_down = (\<lambda>source_id schema. Inl OSError)
   \<and> run_dynamic_etl_bytes storage_down ''a'' ''data.csv'' None
       = run_dynamic_etl_bytes (storage_down\<lparr>add_schema := (\<lambda>source_id schema. Inr schema)\<rparr>)
           ''a'' ''data.csv'' None
   \<and> (\<exists>result. run_dynamic_etl_bytes storage_down ''a'' ''data.csv'' None = Inr (PDict result)
          \<and> map_of result (PStr ''schema'') = Some (sanitize_for_mongo (PDict candidate))
          \<and> map_of result (PStr ''schema_version'') = Some (PInt 1))"
proof -
  have a: "add_schema storage_down = (\<lambda>source_id schema. Inl OSError)"
    by (simp add: storage_down_def)
  note t = tracking_failure_goes_unreported[OF a, of "''a''" "''data.csv''" None]
  from t have one: "run_dynamic_etl_bytes storage_down ''a'' ''data.csv'' None
       = run_dynamic_etl_bytes (storage_down\<lparr>add_schema := (\<lambda>source_id schema. Inr schema)\<rparr>)
           ''a'' ''data.csv'' None"
    by (rule conjunct1)
  have pre: "extract_data storage_down ''a'' (snd (splitext storage_down ''data.csv''))
               = Inr (Some one_cell, PList [])
         \<and> \<not> frame_empty one_cell
         \<and> run_transform_pipeline storage_down one_cell = Inr (one_cell, [])
         \<and> generate_schema storage_down one_cell
              (case None of None \<Rightarrow> underscored (fst (splitext storage_down ''data.csv''))
               | Some given \<Rightarrow> given)
              (PList []) = Inr candidate
         \<and> sanitize_records storage_down (records one_cell) = Inr [PDict [(PStr ''a'', PInt 1)]]"
    by (simp add: storage_down_def one_cell_def frame_empty_def)
  have v: "pget candidate ''version'' (PInt 1) = PInt 1"
    by (simp add: pget_def candidate_def)
  from t pre have "\<exists>result. run_dynamic_etl_bytes storage_down ''a'' ''data.csv'' None = Inr (PDict result)
          \<and> map_of result (PStr ''schema'') = Some (sanitize_for_mongo (PDict candidate))
          \<and> map_of result (PStr ''schema_version'') = Some (pget candidate ''version'' (PInt 1))"
    by blast
  then have two: "\<exists>result. run_dynamic_etl_bytes storage_down ''a'' ''data.csv'' None = Inr (PDict result)
          \<and> map_of result (PStr ''schema'') = Some (sanitize_for_mongo (PDict candidate))
          \<and> map_of result (PStr ''schema_version'') = Some (PInt 1)"
    unfolding v .
  from a one two show ?thesis by (intro conjI)
qed

end
